theory Spec2Isabelle
  imports Main
begin

section \<open>The Twitter poster of autoPost.js\<close>

text \<open>
  The class \<open>TwitterPost\<close> keeps one flag, \<open>isLoggedIn\<close>, and talks to three
  collaborators: the file system, the platform client (\<open>scraper\<close>) and the console.
  The model keeps the flag in a state record together with the chronological list of
  every call the program makes to a collaborator; the collaborators' answers come from
  a \<open>world\<close> record of functions, so that every theorem holds for every file system
  and every platform client. An exception is the left summand of the result.
\<close>

subsection \<open>Strings, extensions and MIME types\<close>

text \<open>
  A string is the list of its bytes (UTF-8, as the arguments of the command line
  arrive). \<open>String.prototype.toLowerCase\<close> on the letters \<open>A\<close> to \<open>Z\<close>: a character
  outside ASCII is left alone here; in JavaScript its lower-case form still holds a
  character outside ASCII, or is \<open>k\<close> (for the Kelvin sign), a letter that no key of
  the MIME table and no command name contains, so the comparisons below come out the
  same.
\<close>

definition toLowerChar :: "char \<Rightarrow> char" where
  "toLowerChar c =
     (let n = (of_char c :: nat) in if 65 \<le> n \<and> n \<le> 90 then char_of (n + 32) else c)"

definition toLowerCase :: "string \<Rightarrow> string" where
  "toLowerCase s = map toLowerChar s"

text \<open>
  \<open>path.extname\<close> is a function of the Node runtime, not of this repository. It is
  modelled after the runtime's POSIX implementation (the Windows one also takes the
  backslash for a separator): one scan of the path from its last character to its
  first, which skips trailing slashes, stops at the slash before the last path
  component, and remembers the last dot of that component (\<open>startDot\<close>), the end of
  the component (\<open>endPos\<close>, the runtime's variable \<open>end\<close>) and whether anything but
  dots stands before that dot (\<open>preDotState\<close>). Slash and dot are ASCII, so the scan
  of the bytes finds what the scan of the characters finds.
\<close>

record ext_scan =
  startDot :: int
  startPart :: int
  endPos :: int
  matchedSlash :: bool
  preDotState :: int

definition ext_init :: ext_scan where
  "ext_init =
     \<lparr>startDot = -1, startPart = 0, endPos = -1, matchedSlash = True, preDotState = 0\<rparr>"

text \<open>\<open>ext_loop path n st\<close> runs the iterations \<open>i = n - 1, ..., 0\<close> of the scan.\<close>

fun ext_loop :: "string \<Rightarrow> nat \<Rightarrow> ext_scan \<Rightarrow> ext_scan" where
  "ext_loop path 0 st = st"
| "ext_loop path (Suc i) st =
     (let code = path ! i in
      if code = CHR ''/'' then
        (if \<not> matchedSlash st then st\<lparr>startPart := int i + 1\<rparr>
         else ext_loop path i st)
      else
        (let st1 = (if endPos st = -1
                    then st\<lparr>matchedSlash := False, endPos := int i + 1\<rparr> else st);
             st2 = (if code = CHR ''.'' then
                      (if startDot st1 = -1 then st1\<lparr>startDot := int i\<rparr>
                       else if preDotState st1 \<noteq> 1 then st1\<lparr>preDotState := 1\<rparr>
                       else st1)
                    else if startDot st1 \<noteq> -1 then st1\<lparr>preDotState := -1\<rparr>
                    else st1)
         in ext_loop path i st2))"

definition extname :: "string \<Rightarrow> string" where
  "extname path =
     (let st = ext_loop path (length path) ext_init in
      if startDot st = -1 \<or> endPos st = -1 \<or> preDotState st = 0 \<or>
         (preDotState st = 1 \<and> startDot st = endPos st - 1 \<and>
          startDot st = startPart st + 1)
      then []
      else take (nat (endPos st) - nat (startDot st)) (drop (nat (startDot st)) path))"

text \<open>
  The object literal \<open>mimeTypes\<close> of \<open>getMimeType\<close>, as the list of its own
  properties. The lookup \<open>mimeTypes[ext] || null\<close> also sees the properties a plain
  object inherits (\<open>constructor\<close>, \<open>toString\<close>, ...); none of their names is empty or
  starts with a dot, and \<open>extname\<close> returns nothing else (lemma \<open>extname_shape\<close>),
  so the lookup is a lookup in this list. Every value of the list is a non-empty string,
  hence truthy, and \<open>|| null\<close> turns exactly the missing key into \<open>None\<close>.
\<close>

definition mimeTypes :: "(string \<times> string) list" where
  "mimeTypes =
     [(''.jpg'', ''image/jpeg''),
      (''.jpeg'', ''image/jpeg''),
      (''.png'', ''image/png''),
      (''.gif'', ''image/gif''),
      (''.mp4'', ''video/mp4''),
      (''.mov'', ''video/quicktime'')]"

definition getMimeType :: "string \<Rightarrow> string option" where
  "getMimeType filePath =
     (let ext = toLowerCase (extname filePath) in map_of mimeTypes ext)"

text \<open>
  The specification's words for the domain of \<open>classify\<close>: the extension of a path is
  \<open>x\<close> "in any letter case" when \<open>path.extname\<close> returns a dot followed by the
  characters of \<open>x\<close>, each one either as it stands in \<open>x\<close> or as the capital of the
  small letter that stands there.
\<close>

definition same_letter :: "char \<Rightarrow> char \<Rightarrow> bool" where
  "same_letter c d \<longleftrightarrow>
     c = d \<or> (97 \<le> (of_char d :: nat) \<and> (of_char d :: nat) \<le> 122 \<and>
              (of_char c :: nat) + 32 = of_char d)"

definition has_extension :: "string \<Rightarrow> string \<Rightarrow> bool" where
  "has_extension filePath x \<longleftrightarrow>
     (case extname filePath of
        [] \<Rightarrow> False
      | dot # e \<Rightarrow> dot = CHR ''.'' \<and> list_all2 same_letter e x)"

subsection \<open>Values, events, the world and the state\<close>

text \<open>
  A JavaScript exception is an \<open>Error\<close> with its message. The parsed content of the
  cookie file is a JSON value; of a cookie only its serialised form matters here.
  A media attachment is the object \<open>{data, mediaType}\<close> that \<open>prepareMediaData\<close>
  pushes (lines 122 to 125); file contents, buffers and strings alike, are strings.
\<close>

datatype error = Error string

datatype json =
    JNull
  | JBool bool
  | JNumber int
  | JString string
  | JArray "json list"
  | JObject "(string \<times> json) list"

datatype cookie = Cookie json

record media =
  data :: string
  mediaType :: string

text \<open>
  Everything the program does to the outside is an event: a call of a function of the
  file system (\<open>fsSync.existsSync\<close>, \<open>fs.readFile\<close>, \<open>fs.writeFile\<close>), of the
  platform client (\<open>scraper.login\<close>, \<open>getCookies\<close>, \<open>setCookies\<close>, \<open>isLoggedIn\<close>,
  \<open>sendTweet\<close>), of the console (\<open>console.log\<close>, \<open>warn\<close>, \<open>error\<close>, with the
  message and the error object printed after it) and \<open>process.exit\<close>. Two more kinds
  make the order of the program's own steps visible: \<open>Invoke\<close> marks the entry into a
  method of \<open>TwitterPost\<close>, \<open>SetIsLoggedIn\<close> an assignment to \<open>this.isLoggedIn\<close>.
  \<open>SendTweet t None None\<close> is the call \<open>sendTweet(text)\<close>; an argument that the
  source passes, also as an empty array, is \<open>Some\<close>.
\<close>

datatype level = LogLevel | WarnLevel | ErrorLevel

datatype operation =
    Initialize | Login | LoadCookies | SaveCookies | PrepareMediaData | Post | ReplyToTweet

datatype event =
    Invoke operation
  | SetIsLoggedIn bool
  | ExistsSync string
  | ReadFile string
  | WriteFile string string
  | ScraperLogin "string option" "string option" "string option"
  | ScraperGetCookies
  | ScraperSetCookies "cookie list"
  | ScraperIsLoggedIn
  | SendTweet string "string option" "media list option"
  | Console level string "error option"
  | ProcessExit nat

text \<open>
  The world gives the answer to every call: the value it returns (\<open>Inr\<close>) or the
  exception it throws (\<open>Inl\<close>). The file system is one snapshot per run, but
  \<open>existsSync\<close> and \<open>readFile\<close> are independent of each other, so a file that passes
  the existence check may still fail to be read (it was removed in between, it is a
  directory, it is not readable). \<open>Cookie_fromJSON\<close> may throw, return \<open>null\<close>
  (\<open>None\<close>) or return a cookie. \<open>scraper_isLoggedIn\<close> depends on the cookies that
  were installed. \<open>cookiePath\<close> is \<open>path.join(__dirname, 'cookies.json')\<close>, the three
  \<open>env\<close> fields are the variables of \<open>process.env\<close> that \<open>login\<close> reads.
\<close>

record world =
  cookiePath :: string
  env_TWITTER_USERNAME :: "string option"
  env_TWITTER_PASSWORD :: "string option"
  env_TWITTER_EMAIL :: "string option"
  existsSync :: "string \<Rightarrow> bool"
  readFile :: "string \<Rightarrow> error + string"
  writeFile :: "string \<Rightarrow> string \<Rightarrow> error + unit"
  JSON_parse :: "string \<Rightarrow> error + json"
  JSON_stringify :: "json \<Rightarrow> error + string"
  Cookie_fromJSON :: "json \<Rightarrow> error + cookie option"
  Cookie_toJSON :: "cookie \<Rightarrow> error + json"
  scraper_login :: "string option \<Rightarrow> string option \<Rightarrow> string option \<Rightarrow> error + unit"
  scraper_getCookies :: "error + cookie list"
  scraper_setCookies :: "cookie list \<Rightarrow> error + unit"
  scraper_isLoggedIn :: "cookie list \<Rightarrow> error + bool"
  scraper_sendTweet :: "string \<Rightarrow> string option \<Rightarrow> media list option \<Rightarrow> error + unit"

text \<open>
  The state of a run: the field \<open>isLoggedIn\<close> of the \<open>TwitterPost\<close> object and the
  events so far, oldest first. An \<open>async\<close> method is a function from the state to its
  result, a value or a thrown exception, and the new state; \<open>await\<close> is sequencing
  (\<open>andThen\<close>), which stops at the first exception, and \<open>try_catch\<close> is
  \<open>try { ... } catch (error) { ... }\<close>. State changes made before an exception stay.
\<close>

record state =
  isLoggedIn :: bool
  trace :: "event list"

type_synonym 'a prog = "state \<Rightarrow> (error + 'a) \<times> state"

definition ok :: "'a \<Rightarrow> 'a prog" where
  "ok x s = (Inr x, s)"

definition throw :: "error \<Rightarrow> 'a prog" where
  "throw e s = (Inl e, s)"

definition andThen :: "'a prog \<Rightarrow> ('a \<Rightarrow> 'b prog) \<Rightarrow> 'b prog" where
  "andThen m f s = (case m s of (Inl e, s') \<Rightarrow> (Inl e, s') | (Inr x, s') \<Rightarrow> f x s')"

definition try_catch :: "'a prog \<Rightarrow> (error \<Rightarrow> 'a prog) \<Rightarrow> 'a prog" where
  "try_catch m h s = (case m s of (Inl e, s') \<Rightarrow> h e s' | (Inr x, s') \<Rightarrow> (Inr x, s'))"

text \<open>
  \<open>call\<close> records the call and answers as the world does; \<open>pure_call\<close> is a call
  of a library function that touches nothing outside (\<open>JSON.parse\<close>,
  \<open>Cookie.fromJSON\<close>, \<open>toJSON\<close>) and is not recorded.
\<close>

definition emit :: "event \<Rightarrow> unit prog" where
  "emit ev s = (Inr (), s\<lparr>trace := trace s @ [ev]\<rparr>)"

definition call :: "event \<Rightarrow> error + 'a \<Rightarrow> 'a prog" where
  "call ev outcome s = (outcome, s\<lparr>trace := trace s @ [ev]\<rparr>)"

definition pure_call :: "error + 'a \<Rightarrow> 'a prog" where
  "pure_call outcome s = (outcome, s)"

definition console :: "level \<Rightarrow> string \<Rightarrow> error option \<Rightarrow> unit prog" where
  "console l msg err = emit (Console l msg err)"

definition set_isLoggedIn :: "bool \<Rightarrow> unit prog" where
  "set_isLoggedIn b s = (Inr (), s\<lparr>isLoggedIn := b, trace := trace s @ [SetIsLoggedIn b]\<rparr>)"

text \<open>\<open>Array.prototype.map\<close> with a callback that has effects, from left to right.\<close>

fun mapM :: "('a \<Rightarrow> 'b prog) \<Rightarrow> 'a list \<Rightarrow> 'b list prog" where
  "mapM f [] = ok []"
| "mapM f (x # xs) = andThen (f x) (\<lambda>y. andThen (mapM f xs) (\<lambda>ys. ok (y # ys)))"

definition get_isLoggedIn :: "bool prog" where
  "get_isLoggedIn s = (Inr (isLoggedIn s), s)"

text \<open>The constructor (lines 9 to 13): not logged in, nothing has happened.\<close>

definition new_TwitterPost :: state where
  "new_TwitterPost = \<lparr>isLoggedIn = False, trace = []\<rparr>"

subsection \<open>Cookie store\<close>

text \<open>
  \<open>JSON.parse\<close> throws a \<open>SyntaxError\<close> on the empty text (the text of an empty
  file); on every other text the world's parser decides.
\<close>

definition parse_json :: "world \<Rightarrow> string \<Rightarrow> error + json" where
  "parse_json w txt =
     (if txt = [] then Inl (Error ''SyntaxError: Unexpected end of JSON input'')
      else JSON_parse w txt)"

text \<open>
  \<open>cookiesJson.map(...)\<close> (line 54) needs an array: on \<open>null\<close> the property access
  throws a \<open>TypeError\<close>, and no other JSON value has a method \<open>map\<close>.
\<close>

definition array_map_target :: "json \<Rightarrow> error + json list" where
  "array_map_target v =
     (case v of
        JArray entries \<Rightarrow> Inr entries
      | JNull \<Rightarrow> Inl (Error ''TypeError: Cannot read properties of null'')
      | _ \<Rightarrow> Inl (Error ''TypeError: cookiesJson.map is not a function''))"

text \<open>
  The callback of lines 54 to 61: an exception of \<open>Cookie.fromJSON\<close> is caught,
  warned about and replaced by \<open>null\<close>.
\<close>

definition parse_cookie :: "world \<Rightarrow> json \<Rightarrow> cookie option prog" where
  "parse_cookie w cookieData =
     try_catch (pure_call (Cookie_fromJSON w cookieData))
       (\<lambda>e. andThen (console WarnLevel ''Failed to parse cookie:'' (Some e)) (\<lambda>_. ok None))"

text \<open>
  \<open>loadCookies\<close> (lines 47 to 78). The filter of line 61 keeps what is not \<open>null\<close>;
  the cookies that remain go to \<open>scraper.setCookies\<close>, and the method itself returns
  nothing. Every exception inside is caught at line 74.
\<close>

definition loadCookies :: "world \<Rightarrow> unit prog" where
  "loadCookies w =
     andThen (emit (Invoke LoadCookies)) (\<lambda>_.
     try_catch
       (andThen (call (ExistsSync (cookiePath w)) (Inr (existsSync w (cookiePath w)))) (\<lambda>found.
        if found then
          andThen (call (ReadFile (cookiePath w)) (readFile w (cookiePath w))) (\<lambda>cookiesData.
          andThen (pure_call (parse_json w cookiesData)) (\<lambda>cookiesJson.
          andThen (pure_call (array_map_target cookiesJson)) (\<lambda>entries.
          andThen (mapM (parse_cookie w) entries) (\<lambda>parsed.
          let cookies = map the (filter (\<lambda>cookie. cookie \<noteq> None) parsed) in
          if length cookies > 0 then
            andThen (call (ScraperSetCookies cookies) (scraper_setCookies w cookies)) (\<lambda>_.
            andThen (call ScraperIsLoggedIn (scraper_isLoggedIn w cookies)) (\<lambda>b.
            andThen (set_isLoggedIn b) (\<lambda>_.
            console LogLevel ''Cookies loaded successfully'' None)))
          else
            andThen (console LogLevel ''No valid cookies found'' None) (\<lambda>_.
            set_isLoggedIn False)))))
        else console LogLevel ''No existing cookies found'' None))
       (\<lambda>error.
          andThen (console ErrorLevel ''Cookie loading error:'' (Some error)) (\<lambda>_.
          set_isLoggedIn False)))"

text \<open>\<open>saveCookies\<close> (lines 80 to 89): the catch of line 86 logs and does not rethrow.\<close>

definition saveCookies :: "world \<Rightarrow> cookie list \<Rightarrow> unit prog" where
  "saveCookies w cookies =
     andThen (emit (Invoke SaveCookies)) (\<lambda>_.
     try_catch
       (andThen (mapM (\<lambda>cookie. pure_call (Cookie_toJSON w cookie)) cookies) (\<lambda>cookiesJson.
        andThen (pure_call (JSON_stringify w (JArray cookiesJson))) (\<lambda>serialized.
        andThen (call (WriteFile (cookiePath w) serialized)
                   (writeFile w (cookiePath w) serialized)) (\<lambda>_.
        console LogLevel ''Cookies saved successfully'' None))))
       (\<lambda>error. console ErrorLevel ''Cookie saving error:'' (Some error)))"

subsection \<open>Session manager\<close>

text \<open>
  \<open>login\<close> (lines 30 to 45) and \<open>initialize\<close> (lines 15 to 28): both log an
  exception and throw it again.
\<close>

definition login :: "world \<Rightarrow> unit prog" where
  "login w =
     andThen (emit (Invoke Login)) (\<lambda>_.
     try_catch
       (andThen (call (ScraperLogin (env_TWITTER_USERNAME w) (env_TWITTER_PASSWORD w)
                         (env_TWITTER_EMAIL w))
                   (scraper_login w (env_TWITTER_USERNAME w) (env_TWITTER_PASSWORD w)
                         (env_TWITTER_EMAIL w))) (\<lambda>_.
        andThen (set_isLoggedIn True) (\<lambda>_.
        andThen (call ScraperGetCookies (scraper_getCookies w)) (\<lambda>cookies.
        andThen (saveCookies w cookies) (\<lambda>_.
        console LogLevel ''Login successful!'' None)))))
       (\<lambda>error.
          andThen (console ErrorLevel ''Login error:'' (Some error)) (\<lambda>_. throw error)))"

definition initialize :: "world \<Rightarrow> unit prog" where
  "initialize w =
     andThen (emit (Invoke Initialize)) (\<lambda>_.
     try_catch
       (andThen (loadCookies w) (\<lambda>_.
        andThen get_isLoggedIn (\<lambda>loggedIn.
        andThen (if \<not> loggedIn
                 then andThen (console LogLevel ''Logging in...'' None) (\<lambda>_. login w)
                 else ok ()) (\<lambda>_.
        console LogLevel ''Twitter poster initialized!'' None))))
       (\<lambda>error.
          andThen (console ErrorLevel ''Init error:'' (Some error)) (\<lambda>_. throw error)))"

subsection \<open>Media loader\<close>

text \<open>
  \<open>prepareMediaData\<close> (lines 104 to 133). \<open>prepare_loop\<close> is the \<open>for ... of\<close>
  loop with the array \<open>mediaData\<close> as accumulator; \<open>continue\<close> is the recursive call
  with the accumulator unchanged. The file is read (line 114) before its type is looked
  up (line 115). The catch of line 129 turns every exception of the loop into the
  empty list.
\<close>

fun prepare_loop :: "world \<Rightarrow> string list \<Rightarrow> media list \<Rightarrow> media list prog" where
  "prepare_loop w [] mediaData = ok mediaData"
| "prepare_loop w (filePath # rest) mediaData =
     andThen (call (ExistsSync filePath) (Inr (existsSync w filePath))) (\<lambda>found.
     if \<not> found then
       andThen (console ErrorLevel (''File not found: '' @ filePath) None) (\<lambda>_.
       prepare_loop w rest mediaData)
     else
       andThen (call (ReadFile filePath) (readFile w filePath)) (\<lambda>content.
       case getMimeType filePath of
         None \<Rightarrow>
           andThen (console ErrorLevel (''Unsupported file type: '' @ filePath) None) (\<lambda>_.
           prepare_loop w rest mediaData)
       | Some mtype \<Rightarrow>
           prepare_loop w rest (mediaData @ [\<lparr>data = content, mediaType = mtype\<rparr>])))"

definition prepareMediaData :: "world \<Rightarrow> string list \<Rightarrow> media list prog" where
  "prepareMediaData w mediaFiles =
     andThen (emit (Invoke PrepareMediaData)) (\<lambda>_.
     try_catch (prepare_loop w mediaFiles [])
       (\<lambda>error.
          andThen (console ErrorLevel ''Media preparation error:'' (Some error)) (\<lambda>_. ok [])))"

subsection \<open>Post dispatcher\<close>

text \<open>The decimal digits of a number, for the template literal of line 153.\<close>

fun show_nat :: "nat \<Rightarrow> string" where
  "show_nat n =
     (if n < 10 then [char_of (48 + n)]
      else show_nat (n div 10) @ [char_of (48 + n mod 10)])"

text \<open>
  \<open>post\<close> (lines 135 to 165) and \<open>replyToTweet\<close> (lines 167 to 184) start with the
  same two lines, \<open>if (!this.isLoggedIn) await this.initialize()\<close>, which are
  \<open>ensure_session\<close>.
\<close>

definition ensure_session :: "world \<Rightarrow> unit prog" where
  "ensure_session w =
     andThen get_isLoggedIn (\<lambda>loggedIn. if \<not> loggedIn then initialize w else ok ())"

definition post :: "world \<Rightarrow> string \<Rightarrow> string list \<Rightarrow> bool prog" where
  "post w tweet mediaFiles =
     andThen (emit (Invoke Post)) (\<lambda>_.
     try_catch
       (andThen (ensure_session w) (\<lambda>_.
        if length mediaFiles = 0 then
          andThen (call (SendTweet tweet None None) (scraper_sendTweet w tweet None None)) (\<lambda>_.
          andThen (console LogLevel (''Text tweet sent: '' @ tweet) None) (\<lambda>_.
          ok True))
        else
          andThen (prepareMediaData w mediaFiles) (\<lambda>mediaData.
          andThen
            (if length mediaData > 0 then
               andThen (call (SendTweet tweet None (Some mediaData))
                          (scraper_sendTweet w tweet None (Some mediaData))) (\<lambda>_.
               console LogLevel
                 (''Tweet sent with '' @ show_nat (length mediaData) @ '' media attachments'')
                 None)
             else
               andThen (call (SendTweet tweet None None)
                          (scraper_sendTweet w tweet None None)) (\<lambda>_.
               console LogLevel ''Media preparation failed, sent as text-only tweet'' None))
            (\<lambda>_. ok True))))
       (\<lambda>error.
          andThen (console ErrorLevel ''Posting error:'' (Some error)) (\<lambda>_. throw error)))"

definition replyToTweet :: "world \<Rightarrow> string \<Rightarrow> string \<Rightarrow> string list \<Rightarrow> bool prog" where
  "replyToTweet w tweetId reply mediaFiles =
     andThen (emit (Invoke ReplyToTweet)) (\<lambda>_.
     try_catch
       (andThen (ensure_session w) (\<lambda>_.
        andThen (prepareMediaData w mediaFiles) (\<lambda>mediaData.
        andThen (call (SendTweet reply (Some tweetId) (Some mediaData))
                   (scraper_sendTweet w reply (Some tweetId) (Some mediaData))) (\<lambda>_.
        andThen (console LogLevel (''Reply sent to tweet '' @ tweetId) None) (\<lambda>_.
        ok True)))))
       (\<lambda>error.
          andThen (console ErrorLevel ''Reply error:'' (Some error)) (\<lambda>_. throw error)))"

subsection \<open>Command line\<close>

text \<open>
  The command line (lines 188 to 232). \<open>argv\<close> is \<open>process.argv\<close>, whose first two
  entries are the paths of node and of the script. \<open>!command\<close> and \<open>!text\<close> hold for a
  missing argument and for the empty string. \<open>process.exit\<close> ends the run at once, so
  \<open>main\<close> returns the exit code with the final state; \<open>settle\<close> is the pair of
  handlers \<open>.then(() => process.exit(0)).catch(...)\<close>.
\<close>

definition usage :: string where
  "usage =
     ''Usage: '' @ [CHR 0x0A] @
     ''        Post tweet: node script.js tweet '' @ [CHR 0x22] @ ''Your tweet text'' @
       [CHR 0x22] @ '' [media1.jpg media2.jpg ...]'' @ [CHR 0x0A] @
     ''        Reply to tweet: node script.js reply tweet_id '' @ [CHR 0x22] @
       ''Your reply text'' @ [CHR 0x22] @ '' [media1.jpg media2.jpg ...]''"

definition unknown_command :: string where
  "unknown_command =
     ''Unknown command. Use '' @ [CHR 0x22] @ ''tweet'' @ [CHR 0x22] @ '' or '' @
     [CHR 0x22] @ ''reply'' @ [CHR 0x22]"

definition process_exit :: "nat \<Rightarrow> state \<Rightarrow> nat \<times> state" where
  "process_exit code s = (code, s\<lparr>trace := trace s @ [ProcessExit code]\<rparr>)"

definition log_then_exit :: "string \<Rightarrow> nat \<Rightarrow> state \<Rightarrow> nat \<times> state" where
  "log_then_exit msg code s = process_exit code (snd (console LogLevel msg None s))"

definition settle :: "(error + bool) \<times> state \<Rightarrow> nat \<times> state" where
  "settle r =
     (case r of
        (Inr _, s) \<Rightarrow> process_exit 0 s
      | (Inl error, s) \<Rightarrow> process_exit 1 (snd (console ErrorLevel ''Error:'' (Some error) s)))"

definition main :: "world \<Rightarrow> string list \<Rightarrow> nat \<times> state" where
  "main w argv =
     (case drop 2 argv of
        [] \<Rightarrow> log_then_exit usage 1 new_TwitterPost
      | command # args \<Rightarrow>
          if command = [] then log_then_exit usage 1 new_TwitterPost
          else if toLowerCase command = ''tweet'' then
            (case args of
               [] \<Rightarrow> log_then_exit ''Tweet text is required'' 1 new_TwitterPost
             | tweet # mediaFiles \<Rightarrow>
                 if tweet = [] then log_then_exit ''Tweet text is required'' 1 new_TwitterPost
                 else settle (post w tweet mediaFiles new_TwitterPost))
          else if toLowerCase command = ''reply'' then
            (case args of
               tweetId # replyText # replyMedia \<Rightarrow>
                 if tweetId = [] \<or> replyText = []
                 then log_then_exit ''Tweet ID and reply text are required'' 1 new_TwitterPost
                 else settle (replyToTweet w tweetId replyText replyMedia new_TwitterPost)
             | _ \<Rightarrow> log_then_exit ''Tweet ID and reply text are required'' 1 new_TwitterPost)
          else
            log_then_exit unknown_command 1 new_TwitterPost)"

subsection \<open>The specification's vocabulary\<close>

text \<open>
  The definitions of this subsection are not part of the program; they say what the
  specification's sentences talk about. \<open>events_since s s'\<close> are the events of a run
  from \<open>s\<close> to \<open>s'\<close>. \<open>selected_attachments\<close> follows the specification of
  \<open>prepare\<close> word by word: skip each path that does not exist or is of no supported
  type, and take for every remaining path, in the order of the input, the content of
  the file and its MIME type. \<open>valid_cookies\<close> are the entries of the cookie file that
  the cookie library turns into a cookie, \<open>parse_warnings\<close> the warnings for the
  entries it throws on, and \<open>loaded_cookies\<close> the cookies a run hands to the platform
  client.
\<close>

definition events_since :: "state \<Rightarrow> state \<Rightarrow> event list" where
  "events_since s s' = drop (length (trace s)) (trace s')"

definition file_content :: "world \<Rightarrow> string \<Rightarrow> string" where
  "file_content w p = (case readFile w p of Inr content \<Rightarrow> content | Inl _ \<Rightarrow> [])"

definition selected_attachments :: "world \<Rightarrow> string list \<Rightarrow> media list" where
  "selected_attachments w paths =
     map (\<lambda>p. \<lparr>data = file_content w p, mediaType = the (getMimeType p)\<rparr>)
       (filter (\<lambda>p. existsSync w p \<and> getMimeType p \<noteq> None) paths)"

definition valid_cookies :: "world \<Rightarrow> json list \<Rightarrow> cookie list" where
  "valid_cookies w entries =
     concat (map (\<lambda>entry.
       case Cookie_fromJSON w entry of Inr (Some c) \<Rightarrow> [c] | _ \<Rightarrow> []) entries)"

definition parse_warnings :: "world \<Rightarrow> json list \<Rightarrow> event list" where
  "parse_warnings w entries =
     concat (map (\<lambda>entry.
       case Cookie_fromJSON w entry of
         Inl e \<Rightarrow> [Console WarnLevel ''Failed to parse cookie:'' (Some e)]
       | Inr _ \<Rightarrow> []) entries)"

fun loaded_cookies :: "event list \<Rightarrow> cookie list" where
  "loaded_cookies [] = []"
| "loaded_cookies (ScraperSetCookies cookies # evs) = cookies"
| "loaded_cookies (ev # evs) = loaded_cookies evs"

text \<open>
  \<open>warnings_of\<close> are the lines a run writes with \<open>console.warn\<close>.
  \<open>save_failure\<close> is the first failure of saving a list of cookies, if there is one:
  of a cookie's \<open>toJSON\<close> (\<open>serialize_all\<close>, from left to right), of
  \<open>JSON.stringify\<close>, or of writing the file.
\<close>

fun is_warning :: "event \<Rightarrow> bool" where
  "is_warning (Console WarnLevel msg err) = True"
| "is_warning ev = False"

definition warnings_of :: "event list \<Rightarrow> event list" where
  "warnings_of evs = filter is_warning evs"

fun serialize_all :: "world \<Rightarrow> cookie list \<Rightarrow> error + json list" where
  "serialize_all w [] = Inr []"
| "serialize_all w (c # cs) =
     (case Cookie_toJSON w c of
        Inl e \<Rightarrow> Inl e
      | Inr j \<Rightarrow> (case serialize_all w cs of Inl e \<Rightarrow> Inl e | Inr js \<Rightarrow> Inr (j # js)))"

definition save_failure :: "world \<Rightarrow> cookie list \<Rightarrow> error option" where
  "save_failure w cookies =
     (case serialize_all w cookies of
        Inl e \<Rightarrow> Some e
      | Inr js \<Rightarrow>
          (case JSON_stringify w (JArray js) of
             Inl e \<Rightarrow> Some e
           | Inr serialized \<Rightarrow>
               (case writeFile w (cookiePath w) serialized of
                  Inl e \<Rightarrow> Some e
                | Inr _ \<Rightarrow> None)))"

text \<open>
  \<open>send_guarded w flag auth evs\<close> reads the events of a run from left to right. It
  keeps the value of \<open>isLoggedIn\<close> (\<open>flag\<close>, updated at every assignment) and
  whether the session was authenticated (\<open>auth\<close>: from the start, by a login that the
  platform accepted, or by cookies that it accepted and for which it answered that it
  is logged in), and holds when both are true at every \<open>SendTweet\<close>.
\<close>

fun auth_event :: "world \<Rightarrow> event \<Rightarrow> bool" where
  "auth_event w (ScraperLogin u p m) = (scraper_login w u p m = Inr ())"
| "auth_event w (ScraperSetCookies cookies) =
     (scraper_setCookies w cookies = Inr () \<and> scraper_isLoggedIn w cookies = Inr True)"
| "auth_event w ev = False"

fun send_guarded :: "world \<Rightarrow> bool \<Rightarrow> bool \<Rightarrow> event list \<Rightarrow> bool" where
  "send_guarded w flag auth [] = True"
| "send_guarded w flag auth (SendTweet t r m # evs) =
     (flag \<and> auth \<and> send_guarded w flag auth evs)"
| "send_guarded w flag auth (SetIsLoggedIn b # evs) = send_guarded w b auth evs"
| "send_guarded w flag auth (ev # evs) = send_guarded w flag (auth \<or> auth_event w ev) evs"

subsection \<open>Invariants for the proofs\<close>

text \<open>
  \<open>guard_after\<close> is the pair that \<open>send_guarded\<close> has reached after a list of
  events. \<open>session_step w s s'\<close> relates the states before and after a piece of the
  session manager: it only adds events, none of them a send or an entry into the media
  loader or the dispatcher, and it keeps the flag equal to the last assignment and
  true only in an authenticated session. \<open>media_event\<close> are the events of the media
  loader, \<open>read_fails\<close> says that some path of the list exists and cannot be read.
\<close>

fun guard_after :: "world \<Rightarrow> bool \<times> bool \<Rightarrow> event list \<Rightarrow> bool \<times> bool" where
  "guard_after w st [] = st"
| "guard_after w (flag, auth) (SetIsLoggedIn b # evs) = guard_after w (b, auth) evs"
| "guard_after w (flag, auth) (ev # evs) = guard_after w (flag, auth \<or> auth_event w ev) evs"

fun session_event :: "event \<Rightarrow> bool" where
  "session_event (SendTweet t r m) = False"
| "session_event (Invoke PrepareMediaData) = False"
| "session_event (Invoke Post) = False"
| "session_event (Invoke ReplyToTweet) = False"
| "session_event (ProcessExit n) = False"
| "session_event ev = True"

fun neutral_event :: "event \<Rightarrow> bool" where
  "neutral_event (SendTweet t r m) = False"
| "neutral_event (SetIsLoggedIn b) = False"
| "neutral_event (ScraperLogin u p m) = False"
| "neutral_event (ScraperSetCookies cookies) = False"
| "neutral_event ev = True"

definition session_step :: "world \<Rightarrow> state \<Rightarrow> state \<Rightarrow> bool" where
  "session_step w s s' \<longleftrightarrow>
     (\<exists>evs. trace s' = trace s @ evs \<and> list_all session_event evs \<and>
        (\<forall>a. (isLoggedIn s \<longrightarrow> a) \<longrightarrow>
           (case guard_after w (isLoggedIn s, a) evs of
              (flag, auth) \<Rightarrow> flag = isLoggedIn s' \<and> (flag \<longrightarrow> auth))))"

fun media_event :: "event \<Rightarrow> bool" where
  "media_event (Invoke PrepareMediaData) = True"
| "media_event (ExistsSync p) = True"
| "media_event (ReadFile p) = True"
| "media_event (Console l msg err) = True"
| "media_event ev = False"

definition read_fails :: "world \<Rightarrow> string list \<Rightarrow> bool" where
  "read_fails w paths = list_ex (\<lambda>p. existsSync w p \<and> isl (readFile w p)) paths"

subsection \<open>Example worlds\<close>

text \<open>
  A first run on a machine without a cookie file and with a read-only directory: the
  picture \<open>exists.png\<close> can be read, \<open>album\<close> is a directory, \<open>gone.jpg\<close> passes the
  existence check and is removed before it is read, no other path exists; the platform
  accepts the login and every tweet, and the cookie file cannot be written.
\<close>

definition example_world :: world where
  "example_world =
     \<lparr>cookiePath = ''cookies.json'',
      env_TWITTER_USERNAME = Some ''user'',
      env_TWITTER_PASSWORD = Some ''secret'',
      env_TWITTER_EMAIL = Some ''user@example.org'',
      existsSync = (\<lambda>p. p = ''exists.png'' \<or> p = ''album'' \<or> p = ''gone.jpg''),
      readFile = (\<lambda>p.
        if p = ''exists.png'' then Inr ''PNG-bytes''
        else if p = ''album'' then Inl (Error ''EISDIR: illegal operation on a directory, read'')
        else Inl (Error ''ENOENT: no such file or directory'')),
      writeFile = (\<lambda>p content. Inl (Error ''EACCES: permission denied'')),
      JSON_parse = (\<lambda>txt. Inl (Error ''SyntaxError: Unexpected token'')),
      JSON_stringify = (\<lambda>v. Inr ''[]''),
      Cookie_fromJSON = (\<lambda>v. Inl (Error ''TypeError: not a cookie'')),
      Cookie_toJSON = (\<lambda>c. case c of Cookie v \<Rightarrow> Inr v),
      scraper_login = (\<lambda>u p m. Inr ()),
      scraper_getCookies = Inr [Cookie (JString ''auth_token'')],
      scraper_setCookies = (\<lambda>cookies. Inr ()),
      scraper_isLoggedIn = (\<lambda>cookies. Inr True),
      scraper_sendTweet = (\<lambda>t r m. Inr ())\<rparr>"

text \<open>
  A later run: the cookie file exists and holds an array of two entries, of which the
  cookie library accepts the first and throws on the second.
\<close>

definition stored_text :: string where
  "stored_text =
     ''[{'' @ [CHR 0x22] @ ''key'' @ [CHR 0x22] @ '':'' @ [CHR 0x22] @ ''auth_token'' @
     [CHR 0x22] @ ''},7]''"

definition stored_entry :: json where
  "stored_entry = JObject [(''key'', JString ''auth_token'')]"

definition stored_world :: world where
  "stored_world =
     example_world
       \<lparr>existsSync := (\<lambda>p. p = ''cookies.json''),
        readFile := (\<lambda>p. if p = ''cookies.json'' then Inr stored_text
                         else Inl (Error ''ENOENT: no such file or directory'')),
        JSON_parse := (\<lambda>txt. if txt = stored_text then Inr (JArray [stored_entry, JNumber 7])
                           else Inl (Error ''SyntaxError: Unexpected token'')),
        Cookie_fromJSON := (\<lambda>v. if v = stored_entry then Inr (Some (Cookie v))
                                else Inl (Error ''TypeError: not a cookie''))\<rparr>"

text \<open>
  The same with \<open>null\<close> as the second entry of the array, for which the cookie
  library returns \<open>null\<close> and does not throw.
\<close>

definition null_text :: string where
  "null_text =
     ''[{'' @ [CHR 0x22] @ ''key'' @ [CHR 0x22] @ '':'' @ [CHR 0x22] @ ''auth_token'' @
     [CHR 0x22] @ ''},null]''"

definition null_world :: world where
  "null_world =
     stored_world
       \<lparr>readFile := (\<lambda>p. if p = ''cookies.json'' then Inr null_text
                         else Inl (Error ''ENOENT: no such file or directory'')),
        JSON_parse := (\<lambda>txt. if txt = null_text then Inr (JArray [stored_entry, JNull])
                           else Inl (Error ''SyntaxError: Unexpected token'')),
        Cookie_fromJSON := (\<lambda>v. if v = stored_entry then Inr (Some (Cookie v)) else Inr None)\<rparr>"

text \<open>A run in which no cookie can be serialised: \<open>toJSON\<close> throws.\<close>

definition unserializable_world :: world where
  "unserializable_world =
     example_world
       \<lparr>Cookie_toJSON := (\<lambda>c. Inl (Error ''TypeError: cookie.toJSON is not a function''))\<rparr>"

section \<open>Theorems\<close>

subsection \<open>Lower case and the extension scan\<close>

lemma of_char_toLowerChar_upper:
  "65 \<le> (of_char c :: nat) \<Longrightarrow> (of_char c :: nat) \<le> 90 \<Longrightarrow>
     (of_char (toLowerChar c) :: nat) = of_char c + 32"
  by (simp add: toLowerChar_def Let_def)

lemma toLowerChar_eq_iff:
  assumes "\<not> (65 \<le> (of_char d :: nat) \<and> (of_char d :: nat) \<le> 90)"
  shows "toLowerChar c = d \<longleftrightarrow> same_letter c d"
proof (cases "65 \<le> (of_char c :: nat) \<and> (of_char c :: nat) \<le> 90")
  case True
  then have low: "(of_char (toLowerChar c) :: nat) = of_char c + 32"
    by (simp add: of_char_toLowerChar_upper)
  show ?thesis
  proof
    assume "toLowerChar c = d"
    with low True show "same_letter c d"
      by (auto simp: same_letter_def)
  next
    assume "same_letter c d"
    with True assms have "(of_char c :: nat) + 32 = of_char d"
      by (auto simp: same_letter_def)
    with low have "(of_char (toLowerChar c) :: nat) = of_char d"
      by simp
    then show "toLowerChar c = d"
      by (metis char_of_char)
  qed
next
  case False
  then have same: "toLowerChar c = c"
    by (auto simp: toLowerChar_def Let_def)
  show ?thesis
  proof
    assume "toLowerChar c = d"
    with same show "same_letter c d"
      by (simp add: same_letter_def)
  next
    assume "same_letter c d"
    with False have "c = d"
      by (auto simp: same_letter_def)
    with same show "toLowerChar c = d"
      by simp
  qed
qed

lemma toLowerCase_eq_iff:
  assumes "\<forall>d \<in> set x. \<not> (65 \<le> (of_char d :: nat) \<and> (of_char d :: nat) \<le> 90)"
  shows "toLowerCase e = x \<longleftrightarrow> list_all2 same_letter e x"
  using assms
proof (induction e arbitrary: x)
  case Nil
  then show ?case by (auto simp: toLowerCase_def)
next
  case (Cons c e)
  show ?case
  proof (cases x)
    case Nil
    then show ?thesis by (simp add: toLowerCase_def)
  next
    case (Cons d x')
    with Cons.prems have d: "\<not> (65 \<le> (of_char d :: nat) \<and> (of_char d :: nat) \<le> 90)"
      and x': "\<forall>d \<in> set x'. \<not> (65 \<le> (of_char d :: nat) \<and> (of_char d :: nat) \<le> 90)"
      by simp_all
    from Cons.IH [OF x'] toLowerChar_eq_iff [OF d, of c] Cons show ?thesis
      by (simp add: toLowerCase_def)
  qed
qed

lemma has_extension_iff:
  assumes "\<forall>d \<in> set x. \<not> (65 \<le> (of_char d :: nat) \<and> (of_char d :: nat) \<le> 90)"
  shows "has_extension p x \<longleftrightarrow> toLowerCase (extname p) = CHR ''.'' # x"
proof (cases "extname p")
  case Nil
  then show ?thesis by (simp add: has_extension_def toLowerCase_def)
next
  case (Cons dot e)
  have dot: "toLowerChar dot = CHR ''.'' \<longleftrightarrow> dot = CHR ''.''"
    using toLowerChar_eq_iff [of "CHR ''.''" dot] by (simp add: same_letter_def)
  from toLowerCase_eq_iff [OF assms, of e] have "map toLowerChar e = x \<longleftrightarrow> list_all2 same_letter e x"
    by (simp add: toLowerCase_def)
  with Cons dot show ?thesis
    by (auto simp: has_extension_def toLowerCase_def)
qed

lemma map_of_mimeTypes:
  "map_of mimeTypes e =
     (if e = ''.jpg'' \<or> e = ''.jpeg'' then Some ''image/jpeg''
      else if e = ''.png'' then Some ''image/png''
      else if e = ''.gif'' then Some ''image/gif''
      else if e = ''.mp4'' then Some ''video/mp4''
      else if e = ''.mov'' then Some ''video/quicktime''
      else None)"
  by (simp add: mimeTypes_def)

lemma ext_loop_shape:
  assumes "n \<le> length path"
    and "endPos st = -1 \<or> (int n < endPos st \<and> endPos st \<le> int (length path))"
    and "startDot st = -1 \<or>
         (0 \<le> startDot st \<and> startDot st < endPos st \<and> path ! nat (startDot st) = CHR ''.'')"
  shows "startDot (ext_loop path n st) = -1 \<or>
         (0 \<le> startDot (ext_loop path n st) \<and>
          startDot (ext_loop path n st) < endPos (ext_loop path n st) \<and>
          endPos (ext_loop path n st) \<le> int (length path) \<and>
          path ! nat (startDot (ext_loop path n st)) = CHR ''.'')"
  using assms
proof (induction path n st rule: ext_loop.induct)
  case (1 path st)
  then show ?case by auto
next
  case (2 path i st)
  show ?case
  proof (cases "path ! i = CHR ''/''")
    case True
    show ?thesis
    proof (cases "matchedSlash st")
      case True
      with \<open>path ! i = CHR ''/''\<close> "2.IH"(1) "2.prems" show ?thesis
        by (auto simp: Let_def)
    next
      case False
      with \<open>path ! i = CHR ''/''\<close> "2.prems" show ?thesis
        by (auto simp: Let_def)
    qed
  next
    case False
    let ?st1 = "if endPos st = -1
      then st\<lparr>matchedSlash := False, endPos := int i + 1\<rparr> else st"
    let ?st2 = "if path ! i = CHR ''.'' then
        (if startDot ?st1 = -1 then ?st1\<lparr>startDot := int i\<rparr>
         else if preDotState ?st1 \<noteq> 1 then ?st1\<lparr>preDotState := 1\<rparr>
         else ?st1)
      else if startDot ?st1 \<noteq> -1 then ?st1\<lparr>preDotState := -1\<rparr>
      else ?st1"
    have eq: "ext_loop path (Suc i) st = ext_loop path i ?st2"
      using False by (simp add: Let_def)
    have "startDot (ext_loop path i ?st2) = -1 \<or>
         (0 \<le> startDot (ext_loop path i ?st2) \<and>
          startDot (ext_loop path i ?st2) < endPos (ext_loop path i ?st2) \<and>
          endPos (ext_loop path i ?st2) \<le> int (length path) \<and>
          path ! nat (startDot (ext_loop path i ?st2)) = CHR ''.'')"
    proof (rule "2.IH"(2) [OF refl False refl refl])
      show "i \<le> length path" using "2.prems"(1) by simp
      show "endPos ?st2 = -1 \<or> (int i < endPos ?st2 \<and> endPos ?st2 \<le> int (length path))"
        using "2.prems" by auto
      show "startDot ?st2 = -1 \<or>
         (0 \<le> startDot ?st2 \<and> startDot ?st2 < endPos ?st2 \<and>
          path ! nat (startDot ?st2) = CHR ''.'')"
        using "2.prems" by auto
    qed
    with eq show ?thesis by simp
  qed
qed

lemma extname_shape: "extname path = [] \<or> (\<exists>e. extname path = CHR ''.'' # e)"
proof -
  let ?st = "ext_loop path (length path) ext_init"
  have shape: "startDot ?st = -1 \<or>
         (0 \<le> startDot ?st \<and> startDot ?st < endPos ?st \<and>
          endPos ?st \<le> int (length path) \<and> path ! nat (startDot ?st) = CHR ''.'')"
    by (rule ext_loop_shape) (simp_all add: ext_init_def)
  show ?thesis
  proof (cases "extname path = []")
    case True
    then show ?thesis by simp
  next
    case False
    then have ext: "extname path =
        take (nat (endPos ?st) - nat (startDot ?st)) (drop (nat (startDot ?st)) path)"
      and dot: "startDot ?st \<noteq> -1"
      by (auto simp: extname_def Let_def split: if_splits)
    from shape dot have d: "nat (startDot ?st) < length path"
      and e: "nat (startDot ?st) < nat (endPos ?st)"
      and c: "path ! nat (startDot ?st) = CHR ''.''"
      by auto
    from d have "drop (nat (startDot ?st)) path =
        path ! nat (startDot ?st) # drop (Suc (nat (startDot ?st))) path"
      by (simp add: Cons_nth_drop_Suc)
    moreover from e obtain k where "nat (endPos ?st) - nat (startDot ?st) = Suc k"
      by (cases "nat (endPos ?st) - nat (startDot ?st)") auto
    ultimately show ?thesis
      using ext c by simp
  qed
qed

text \<open>The examples of the runtime's documentation of \<open>path.extname\<close>, and three more.\<close>

lemma extname_examples:
  "extname ''index.html'' = ''.html''"
  "extname ''index.coffee.md'' = ''.md''"
  "extname ''index.'' = ''.''"
  "extname ''index'' = []"
  "extname ''.index'' = []"
  "extname ''.index.md'' = ''.md''"
  "extname ''media/2024.05/Photo.JPG'' = ''.JPG''"
  "extname ''album.d/'' = ''.d''"
  "extname ''..'' = []"
  by code_simp+

text \<open>
  C3. For every path whose extension is one of jpg, jpeg, png, gif, mp4, mov in any
  letter case, \<open>getMimeType\<close> returns the MIME type the table fixes for it (image/jpeg,
  image/jpeg, image/png, image/gif, video/mp4, video/quicktime); for every path with
  any other extension, or with none, it returns \<open>None\<close>.
\<close>

theorem getMimeType_classifies:
  "(has_extension p ''jpg'' \<longrightarrow> getMimeType p = Some ''image/jpeg'') \<and>
   (has_extension p ''jpeg'' \<longrightarrow> getMimeType p = Some ''image/jpeg'') \<and>
   (has_extension p ''png'' \<longrightarrow> getMimeType p = Some ''image/png'') \<and>
   (has_extension p ''gif'' \<longrightarrow> getMimeType p = Some ''image/gif'') \<and>
   (has_extension p ''mp4'' \<longrightarrow> getMimeType p = Some ''video/mp4'') \<and>
   (has_extension p ''mov'' \<longrightarrow> getMimeType p = Some ''video/quicktime'') \<and>
   (\<not> (has_extension p ''jpg'' \<or> has_extension p ''jpeg'' \<or> has_extension p ''png'' \<or>
        has_extension p ''gif'' \<or> has_extension p ''mp4'' \<or> has_extension p ''mov'')
      \<longrightarrow> getMimeType p = None)"
proof -
  have jpg: "has_extension p ''jpg'' \<longleftrightarrow> toLowerCase (extname p) = ''.jpg''"
    by (rule has_extension_iff) simp
  have jpeg: "has_extension p ''jpeg'' \<longleftrightarrow> toLowerCase (extname p) = ''.jpeg''"
    by (rule has_extension_iff) simp
  have png: "has_extension p ''png'' \<longleftrightarrow> toLowerCase (extname p) = ''.png''"
    by (rule has_extension_iff) simp
  have gif: "has_extension p ''gif'' \<longleftrightarrow> toLowerCase (extname p) = ''.gif''"
    by (rule has_extension_iff) simp
  have mp4: "has_extension p ''mp4'' \<longleftrightarrow> toLowerCase (extname p) = ''.mp4''"
    by (rule has_extension_iff) simp
  have mov: "has_extension p ''mov'' \<longleftrightarrow> toLowerCase (extname p) = ''.mov''"
    by (rule has_extension_iff) simp
  have get: "getMimeType p = map_of mimeTypes (toLowerCase (extname p))"
    by (simp add: getMimeType_def)
  show ?thesis
    unfolding jpg jpeg png gif mp4 mov get map_of_mimeTypes by simp
qed

theorem getMimeType_classifies_witness:
  "has_extension ''pics/Photo.JpG'' ''jpg'' \<and>
   getMimeType ''pics/Photo.JpG'' = Some ''image/jpeg'' \<and>
   has_extension ''clip.MOV'' ''mov'' \<and>
   getMimeType ''clip.MOV'' = Some ''video/quicktime'' \<and>
   \<not> (has_extension ''notes.txt'' ''jpg'' \<or> has_extension ''notes.txt'' ''jpeg'' \<or>
      has_extension ''notes.txt'' ''png'' \<or> has_extension ''notes.txt'' ''gif'' \<or>
      has_extension ''notes.txt'' ''mp4'' \<or> has_extension ''notes.txt'' ''mov'') \<and>
   getMimeType ''notes.txt'' = None"
proof -
  have a: "has_extension ''pics/Photo.JpG'' ''jpg''"
    by code_simp
  have b: "has_extension ''clip.MOV'' ''mov''"
    by code_simp
  have c: "\<not> (has_extension ''notes.txt'' ''jpg'' \<or> has_extension ''notes.txt'' ''jpeg'' \<or>
      has_extension ''notes.txt'' ''png'' \<or> has_extension ''notes.txt'' ''gif'' \<or>
      has_extension ''notes.txt'' ''mp4'' \<or> has_extension ''notes.txt'' ''mov'')"
    by code_simp
  have a': "getMimeType ''pics/Photo.JpG'' = Some ''image/jpeg''"
    using a getMimeType_classifies [of "''pics/Photo.JpG''"] by blast
  have b': "getMimeType ''clip.MOV'' = Some ''video/quicktime''"
    using b getMimeType_classifies [of "''clip.MOV''"] by blast
  have c': "getMimeType ''notes.txt'' = None"
    using c getMimeType_classifies [of "''notes.txt''"] by blast
  show ?thesis
    by (intro conjI; (fact a | fact a' | fact b | fact b' | fact c | fact c'))
qed

subsection \<open>Sequencing\<close>

lemmas prog_defs = ok_def throw_def andThen_def try_catch_def emit_def call_def pure_call_def
  console_def set_isLoggedIn_def get_isLoggedIn_def

lemma parse_cookie_step:
  "parse_cookie w entry s =
     (case Cookie_fromJSON w entry of
        Inl e \<Rightarrow> (Inr None,
                  s\<lparr>trace := trace s @ [Console WarnLevel ''Failed to parse cookie:'' (Some e)]\<rparr>)
      | Inr c \<Rightarrow> (Inr c, s))"
  by (simp add: parse_cookie_def prog_defs split: sum.splits)

lemma mapM_parse_cookie:
  "mapM (parse_cookie w) entries s =
     (Inr (map (\<lambda>entry. case Cookie_fromJSON w entry of Inr c \<Rightarrow> c | Inl _ \<Rightarrow> None) entries),
      s\<lparr>trace := trace s @ parse_warnings w entries\<rparr>)"
proof (induction entries arbitrary: s)
  case Nil
  then show ?case by (simp add: ok_def parse_warnings_def)
next
  case (Cons entry entries)
  show ?case
  proof (cases "Cookie_fromJSON w entry")
    case (Inl e)
    then have step: "parse_cookie w entry s =
        (Inr None, s\<lparr>trace := trace s @ [Console WarnLevel ''Failed to parse cookie:'' (Some e)]\<rparr>)"
      by (simp add: parse_cookie_step)
    show ?thesis
      by (simp add: andThen_def ok_def step Cons.IH parse_warnings_def Inl)
  next
    case (Inr c)
    then have step: "parse_cookie w entry s = (Inr c, s)"
      by (simp add: parse_cookie_step)
    show ?thesis
      by (simp add: andThen_def ok_def step Cons.IH parse_warnings_def Inr)
  qed
qed

lemma mapM_pure:
  "mapM (\<lambda>x. pure_call (f x)) xs s = (r, s') \<Longrightarrow> s' = s"
proof (induction xs arbitrary: r s')
  case Nil
  then show ?case by (simp add: ok_def)
next
  case (Cons x xs)
  then show ?case
    by (auto simp: prog_defs split: sum.splits prod.splits)
qed

subsection \<open>The monitor of sends\<close>

lemma guard_after_append:
  "guard_after w st (xs @ ys) = guard_after w (guard_after w st xs) ys"
proof (induction xs arbitrary: st)
  case Nil
  then show ?case by simp
next
  case (Cons x xs)
  show ?case
    by (cases st; cases x) (simp_all add: Cons.IH)
qed

lemma guard_after_neutral:
  "list_all neutral_event xs \<Longrightarrow> guard_after w st xs = st"
proof (induction xs arbitrary: st)
  case Nil
  then show ?case by simp
next
  case (Cons x xs)
  then show ?case
    by (cases st; cases x) simp_all
qed

lemma send_guarded_append:
  "send_guarded w flag auth (xs @ ys) \<longleftrightarrow>
     send_guarded w flag auth xs \<and>
     (case guard_after w (flag, auth) xs of (f, a) \<Rightarrow> send_guarded w f a ys)"
proof (induction xs arbitrary: flag auth)
  case Nil
  then show ?case by simp
next
  case (Cons x xs)
  show ?case
    by (cases x) (auto simp: Cons.IH)
qed

lemma send_guarded_session:
  "list_all session_event xs \<Longrightarrow> send_guarded w flag auth xs"
proof (induction xs arbitrary: flag auth)
  case Nil
  then show ?case by simp
next
  case (Cons x xs)
  then show ?case
    by (cases x) simp_all
qed

lemma session_step_refl: "session_step w s s"
  by (simp add: session_step_def)

lemma session_step_trans:
  assumes "session_step w s s1" and "session_step w s1 s2"
  shows "session_step w s s2"
proof -
  from assms(1) obtain xs where xs: "trace s1 = trace s @ xs" "list_all session_event xs"
    and gx: "\<And>a. (isLoggedIn s \<longrightarrow> a) \<Longrightarrow>
      (case guard_after w (isLoggedIn s, a) xs of
         (flag, auth) \<Rightarrow> flag = isLoggedIn s1 \<and> (flag \<longrightarrow> auth))"
    unfolding session_step_def by blast
  from assms(2) obtain ys where ys: "trace s2 = trace s1 @ ys" "list_all session_event ys"
    and gy: "\<And>a. (isLoggedIn s1 \<longrightarrow> a) \<Longrightarrow>
      (case guard_after w (isLoggedIn s1, a) ys of
         (flag, auth) \<Rightarrow> flag = isLoggedIn s2 \<and> (flag \<longrightarrow> auth))"
    unfolding session_step_def by blast
  have "(case guard_after w (isLoggedIn s, a) (xs @ ys) of
           (flag, auth) \<Rightarrow> flag = isLoggedIn s2 \<and> (flag \<longrightarrow> auth))"
    if a: "isLoggedIn s \<longrightarrow> a" for a
  proof -
    obtain f1 a1 where mid: "guard_after w (isLoggedIn s, a) xs = (f1, a1)"
      by (cases "guard_after w (isLoggedIn s, a) xs")
    with gx [OF a] have f1: "f1 = isLoggedIn s1" and a1: "f1 \<longrightarrow> a1"
      by simp_all
    from gy [of a1] f1 a1 show ?thesis
      by (simp add: guard_after_append mid)
  qed
  with xs ys show ?thesis
    unfolding session_step_def by (intro exI [of _ "xs @ ys"]) simp
qed


subsection \<open>The session manager only adds session events\<close>

lemma parse_warnings_session [simp]: "list_all session_event (parse_warnings w entries)"
  by (induction entries) (auto simp: parse_warnings_def split: sum.splits)

lemma parse_warnings_neutral: "list_all neutral_event (parse_warnings w entries)"
  by (induction entries) (auto simp: parse_warnings_def split: sum.splits)

lemma guard_after_parse_warnings [simp]:
  "guard_after w st (parse_warnings w entries @ ys) = guard_after w st ys"
  by (simp add: guard_after_append guard_after_neutral parse_warnings_neutral)

lemma loadCookies_step:
  assumes "loadCookies w s = (r, s')"
  shows "r = Inr () \<and> session_step w s s'"
  using assms
  apply (simp add: loadCookies_def prog_defs mapM_parse_cookie Let_def
      split: sum.splits if_splits prod.splits)
  apply (auto simp: session_step_def)
  done


lemma saveCookies_step:
  assumes "saveCookies w cookies s = (r, s')"
  shows "r = Inr () \<and> session_step w s s' \<and> isLoggedIn s' = isLoggedIn s"
proof -
  obtain r1 s1 where m: "mapM (\<lambda>cookie. pure_call (Cookie_toJSON w cookie)) cookies
      (s\<lparr>trace := trace s @ [Invoke SaveCookies]\<rparr>) = (r1, s1)"
    by (cases "mapM (\<lambda>cookie. pure_call (Cookie_toJSON w cookie)) cookies
      (s\<lparr>trace := trace s @ [Invoke SaveCookies]\<rparr>)")
  from mapM_pure [OF m] have s1: "s1 = s\<lparr>trace := trace s @ [Invoke SaveCookies]\<rparr>" .
  show ?thesis
    using m assms unfolding saveCookies_def s1
    by (auto simp: prog_defs session_step_def split: sum.splits prod.splits)
qed

lemma login_step:
  assumes "login w s = (r, s')"
  shows "session_step w s s' \<and> (r = Inr () \<longrightarrow> isLoggedIn s')"
proof -
  let ?u = "env_TWITTER_USERNAME w" and ?p = "env_TWITTER_PASSWORD w"
    and ?m = "env_TWITTER_EMAIL w"
  let ?s0 = "s\<lparr>trace := trace s @ [Invoke Login, ScraperLogin ?u ?p ?m]\<rparr>"
  show ?thesis
  proof (cases "scraper_login w ?u ?p ?m")
    case (Inl e)
    with assms show ?thesis
      by (auto simp: login_def prog_defs session_step_def)
  next
    case ok: (Inr u)
    let ?s1 = "s\<lparr>isLoggedIn := True,
      trace := trace s @ [Invoke Login, ScraperLogin ?u ?p ?m, SetIsLoggedIn True,
        ScraperGetCookies]\<rparr>"
    have first: "session_step w s ?s1"
      using ok by (auto simp: session_step_def)
    show ?thesis
    proof (cases "scraper_getCookies w")
      case (Inl e)
      with assms ok have "s' = ?s1\<lparr>trace := trace ?s1 @ [Console ErrorLevel ''Login error:'' (Some e)]\<rparr>"
        and "r = Inl e"
        by (auto simp: login_def prog_defs)
      moreover have "session_step w ?s1
          (?s1\<lparr>trace := trace ?s1 @ [Console ErrorLevel ''Login error:'' (Some e)]\<rparr>)"
        by (auto simp: session_step_def)
      ultimately show ?thesis
        using session_step_trans [OF first] by simp
    next
      case (Inr cookies)
      obtain r2 s2 where save: "saveCookies w cookies ?s1 = (r2, s2)"
        by (cases "saveCookies w cookies ?s1")
      from saveCookies_step [OF save] have r2: "r2 = Inr ()" and step2: "session_step w ?s1 s2"
        and flag2: "isLoggedIn s2" by simp_all
      from assms ok Inr save r2
      have s': "s' = s2\<lparr>trace := trace s2 @ [Console LogLevel ''Login successful!'' None]\<rparr>"
        and r: "r = Inr ()"
        by (auto simp: login_def prog_defs)
      have "session_step w s2 s'"
        unfolding s' by (auto simp: session_step_def)
      with session_step_trans [OF first step2] have "session_step w s s'"
        by (rule session_step_trans)
      with flag2 s' show ?thesis by simp
    qed
  qed
qed


lemma session_step_emit:
  "session_event ev \<Longrightarrow> neutral_event ev \<Longrightarrow>
     session_step w s (s\<lparr>trace := trace s @ [ev]\<rparr>)"
  by (cases ev) (auto simp: session_step_def)

lemma session_step_trace:
  "session_step w s s' \<Longrightarrow> \<exists>evs. trace s' = trace s @ evs \<and> list_all session_event evs"
  by (auto simp: session_step_def)

lemma initialize_step:
  assumes "initialize w s = (r, s')"
  shows "session_step w s s' \<and> (r = Inr () \<longrightarrow> isLoggedIn s') \<and>
         (\<exists>evs. trace s' = trace s @ Invoke Initialize # evs)"
proof -
  let ?s0 = "s\<lparr>trace := trace s @ [Invoke Initialize]\<rparr>"
  have step0: "session_step w s ?s0"
    by (simp add: session_step_emit)
  obtain r1 s1 where load: "loadCookies w ?s0 = (r1, s1)"
    by (cases "loadCookies w ?s0")
  from loadCookies_step [OF load] have r1: "r1 = Inr ()" and step1: "session_step w ?s0 s1"
    by simp_all
  from session_step_trace [OF step1] obtain evs1 where
    evs1: "trace s1 = trace s @ Invoke Initialize # evs1" by auto
  have step01: "session_step w s s1"
    using step0 step1 by (rule session_step_trans)
  show ?thesis
  proof (cases "isLoggedIn s1")
    case True
    with assms load r1
    have s': "s' = s1\<lparr>trace := trace s1 @ [Console LogLevel ''Twitter poster initialized!'' None]\<rparr>"
      and r: "r = Inr ()"
      by (auto simp: initialize_def prog_defs)
    have "session_step w s1 s'"
      unfolding s' by (simp add: session_step_emit)
    with step01 have "session_step w s s'"
      by (rule session_step_trans)
    with True s' evs1 show ?thesis by simp
  next
    case False
    let ?s2 = "s1\<lparr>trace := trace s1 @ [Console LogLevel ''Logging in...'' None]\<rparr>"
    have step2: "session_step w s1 ?s2"
      by (simp add: session_step_emit)
    obtain r3 s3 where lg: "login w ?s2 = (r3, s3)"
      by (cases "login w ?s2")
    from login_step [OF lg] have step3: "session_step w ?s2 s3"
      and flag3: "r3 = Inr () \<longrightarrow> isLoggedIn s3" by simp_all
    from session_step_trace [OF step3] evs1 obtain evs3 where
      evs3: "trace s3 = trace s @ Invoke Initialize # evs3" by auto
    have step03: "session_step w s s3"
      using session_step_trans [OF step01 step2] step3 by (rule session_step_trans)
    show ?thesis
    proof (cases r3)
      case (Inl e)
      with assms load r1 False lg
      have s': "s' = s3\<lparr>trace := trace s3 @ [Console ErrorLevel ''Init error:'' (Some e)]\<rparr>"
        and r: "r = Inl e"
        by (auto simp: initialize_def prog_defs)
      have "session_step w s3 s'"
        unfolding s' by (simp add: session_step_emit)
      with step03 have "session_step w s s'"
        by (rule session_step_trans)
      with r s' evs3 show ?thesis by simp
    next
      case (Inr u)
      with assms load r1 False lg
      have s': "s' = s3\<lparr>trace := trace s3 @ [Console LogLevel ''Twitter poster initialized!'' None]\<rparr>"
        by (auto simp: initialize_def prog_defs)
      have "session_step w s3 s'"
        unfolding s' by (simp add: session_step_emit)
      with step03 have "session_step w s s'"
        by (rule session_step_trans)
      with Inr flag3 s' evs3 show ?thesis by simp
    qed
  qed
qed

lemma ensure_session_step:
  assumes "ensure_session w s = (r, s')"
  shows "session_step w s s' \<and> (r = Inr () \<longrightarrow> isLoggedIn s') \<and>
         (\<not> isLoggedIn s \<longrightarrow> (\<exists>evs. trace s' = trace s @ Invoke Initialize # evs))"
proof (cases "isLoggedIn s")
  case True
  with assms have "s' = s" and "r = Inr ()"
    by (auto simp: ensure_session_def prog_defs)
  with True show ?thesis
    by (simp add: session_step_refl)
next
  case False
  with assms have "initialize w s = (r, s')"
    by (auto simp: ensure_session_def prog_defs)
  from initialize_step [OF this] show ?thesis by simp
qed


subsection \<open>The result of the media loader\<close>

lemma prepare_loop_Cons:
  "prepare_loop w (p # rest) acc s =
     (if \<not> existsSync w p then
        prepare_loop w rest acc
          (s\<lparr>trace := trace s @ [ExistsSync p, Console ErrorLevel (''File not found: '' @ p) None]\<rparr>)
      else
        (case readFile w p of
           Inl e \<Rightarrow> (Inl e, s\<lparr>trace := trace s @ [ExistsSync p, ReadFile p]\<rparr>)
         | Inr content \<Rightarrow>
             (case getMimeType p of
                None \<Rightarrow>
                  prepare_loop w rest acc
                    (s\<lparr>trace := trace s @ [ExistsSync p, ReadFile p,
                       Console ErrorLevel (''Unsupported file type: '' @ p) None]\<rparr>)
              | Some mtype \<Rightarrow>
                  prepare_loop w rest (acc @ [\<lparr>data = content, mediaType = mtype\<rparr>])
                    (s\<lparr>trace := trace s @ [ExistsSync p, ReadFile p]\<rparr>))))"
  by (simp add: prog_defs split: sum.splits option.splits)

lemma prepare_loop_result:
  assumes "prepare_loop w paths acc s = (r, s')"
  shows "(\<exists>evs. trace s' = trace s @ evs \<and> list_all media_event evs) \<and>
         isLoggedIn s' = isLoggedIn s \<and>
         (if read_fails w paths
          then (\<exists>e. r = Inl e \<and> (\<exists>p \<in> set paths. existsSync w p \<and> readFile w p = Inl e))
          else r = Inr (acc @ selected_attachments w paths))"
  using assms
proof (induction paths arbitrary: acc s)
  case Nil
  then show ?case
    by (auto simp: ok_def read_fails_def selected_attachments_def file_content_def)
next
  case (Cons p rest)
  show ?case
  proof (cases "existsSync w p")
    case False
    with Cons.prems have "prepare_loop w rest acc
        (s\<lparr>trace := trace s @ [ExistsSync p, Console ErrorLevel (''File not found: '' @ p) None]\<rparr>)
        = (r, s')"
      by (simp add: prepare_loop_Cons del: prepare_loop.simps)
    from Cons.IH [OF this] False show ?thesis
      by (auto simp: read_fails_def selected_attachments_def file_content_def)
  next
    case True
    show ?thesis
    proof (cases "readFile w p")
      case (Inl e)
      with Cons.prems True show ?thesis
        by (auto simp: prepare_loop_Cons read_fails_def simp del: prepare_loop.simps)
    next
      case (Inr content)
      show ?thesis
      proof (cases "getMimeType p")
        case None
        with Cons.prems True Inr have "prepare_loop w rest acc
            (s\<lparr>trace := trace s @ [ExistsSync p, ReadFile p,
               Console ErrorLevel (''Unsupported file type: '' @ p) None]\<rparr>) = (r, s')"
          by (simp add: prepare_loop_Cons del: prepare_loop.simps)
        from Cons.IH [OF this] True Inr None show ?thesis
          by (auto simp: read_fails_def selected_attachments_def file_content_def)
      next
        case (Some mtype)
        with Cons.prems True Inr have "prepare_loop w rest
            (acc @ [\<lparr>data = content, mediaType = mtype\<rparr>])
            (s\<lparr>trace := trace s @ [ExistsSync p, ReadFile p]\<rparr>) = (r, s')"
          by (simp add: prepare_loop_Cons del: prepare_loop.simps)
        from Cons.IH [OF this] True Inr Some show ?thesis
          by (auto simp: read_fails_def selected_attachments_def file_content_def)
      qed
    qed
  qed
qed

lemma prepareMediaData_result:
  assumes "prepareMediaData w paths s = (r, s')"
  shows "(\<exists>evs. trace s' = trace s @ Invoke PrepareMediaData # evs \<and> list_all media_event evs) \<and>
         isLoggedIn s' = isLoggedIn s \<and>
         r = Inr (if read_fails w paths then [] else selected_attachments w paths) \<and>
         (read_fails w paths \<longrightarrow>
            (\<exists>e. last (trace s') = Console ErrorLevel ''Media preparation error:'' (Some e) \<and>
                 (\<exists>p \<in> set paths. existsSync w p \<and> readFile w p = Inl e)))"
proof -
  let ?s0 = "s\<lparr>trace := trace s @ [Invoke PrepareMediaData]\<rparr>"
  obtain r1 s1 where loop: "prepare_loop w paths [] ?s0 = (r1, s1)"
    by (cases "prepare_loop w paths [] ?s0")
  from prepare_loop_result [OF loop] obtain evs where
    evs: "trace s1 = trace s @ Invoke PrepareMediaData # evs" "list_all media_event evs"
    and flag: "isLoggedIn s1 = isLoggedIn s"
    and res: "if read_fails w paths
              then (\<exists>e. r1 = Inl e \<and> (\<exists>p \<in> set paths. existsSync w p \<and> readFile w p = Inl e))
              else r1 = Inr (selected_attachments w paths)"
    by auto
  show ?thesis
  proof (cases "read_fails w paths")
    case True
    with res obtain e where "r1 = Inl e"
      and origin: "\<exists>p \<in> set paths. existsSync w p \<and> readFile w p = Inl e" by auto
    with assms loop have "r = Inr []"
      and "s' = s1\<lparr>trace := trace s1 @ [Console ErrorLevel ''Media preparation error:'' (Some e)]\<rparr>"
      by (auto simp: prepareMediaData_def prog_defs)
    with True evs flag origin show ?thesis by auto
  next
    case False
    with res have "r1 = Inr (selected_attachments w paths)" by simp
    with assms loop have "r = Inr (selected_attachments w paths)" and "s' = s1"
      by (auto simp: prepareMediaData_def prog_defs)
    with False evs flag show ?thesis by simp
  qed
qed

subsection \<open>Media loader: C5, C10 and C4\<close>

lemma selected_attachments_origin:
  assumes "\<not> read_fails w paths" and "m \<in> set (selected_attachments w paths)"
  shows "\<exists>p \<in> set paths. existsSync w p \<and> readFile w p = Inr (data m) \<and>
           getMimeType p = Some (mediaType m)"
proof -
  from assms(2) obtain p where p: "p \<in> set paths" "existsSync w p" "getMimeType p \<noteq> None"
    and m: "m = \<lparr>data = file_content w p, mediaType = the (getMimeType p)\<rparr>"
    by (auto simp: selected_attachments_def)
  from assms(1) p have "\<not> isl (readFile w p)"
    by (auto simp: read_fails_def list_ex_iff)
  then obtain content where "readFile w p = Inr content"
    by (cases "readFile w p") simp_all
  with p m show ?thesis
    by (auto simp: file_content_def)
qed

text \<open>
  C5. For every sequence of paths and every file system, \<open>prepareMediaData\<close> returns a
  list and never an exception, whatever the file-system calls answer; every attachment
  of the list comes from a path of the input that exists, was read and is of a
  supported type, so that a path that failed is not in the result, and nothing else
  tells the caller that it failed.
\<close>

theorem prepareMediaData_never_throws:
  "\<exists>mediaData s'. prepareMediaData w paths s = (Inr mediaData, s') \<and>
     isLoggedIn s' = isLoggedIn s \<and>
     (\<forall>m \<in> set mediaData. \<exists>p \<in> set paths.
        existsSync w p \<and> readFile w p = Inr (data m) \<and> getMimeType p = Some (mediaType m))"
proof -
  obtain r s' where run: "prepareMediaData w paths s = (r, s')"
    by (cases "prepareMediaData w paths s")
  from prepareMediaData_result [OF run]
  have r: "r = Inr (if read_fails w paths then [] else selected_attachments w paths)"
    and flag: "isLoggedIn s' = isLoggedIn s"
    by simp_all
  show ?thesis
  proof (cases "read_fails w paths")
    case True
    with run r flag show ?thesis by simp
  next
    case False
    with run r flag selected_attachments_origin [OF False] show ?thesis
      by simp
  qed
qed

theorem prepareMediaData_never_throws_witness:
  "fst (prepareMediaData example_world [''exists.png'', ''missing.xyz''] new_TwitterPost) =
     Inr [\<lparr>data = ''PNG-bytes'', mediaType = ''image/png''\<rparr>] \<and>
   (\<exists>p \<in> set [''exists.png'', ''missing.xyz''].
      existsSync example_world p \<and> readFile example_world p = Inr ''PNG-bytes'' \<and>
      getMimeType p = Some ''image/png'') \<and>
   fst (prepareMediaData example_world [''exists.png'', ''gone.jpg'', ''missing.xyz'']
     new_TwitterPost) = Inr []"
proof -
  have a: "fst (prepareMediaData example_world [''exists.png'', ''missing.xyz'']
      new_TwitterPost) = Inr [\<lparr>data = ''PNG-bytes'', mediaType = ''image/png''\<rparr>]"
    by code_simp
  from prepareMediaData_never_throws
    [of example_world "[''exists.png'', ''missing.xyz'']" new_TwitterPost]
  obtain mediaData s' where
    run: "prepareMediaData example_world [''exists.png'', ''missing.xyz''] new_TwitterPost =
      (Inr mediaData, s')"
    and origin: "\<forall>m \<in> set mediaData. \<exists>p \<in> set [''exists.png'', ''missing.xyz''].
      existsSync example_world p \<and> readFile example_world p = Inr (data m) \<and>
      getMimeType p = Some (mediaType m)"
    by blast
  from a run have "mediaData = [\<lparr>data = ''PNG-bytes'', mediaType = ''image/png''\<rparr>]"
    by simp
  with origin have b: "\<exists>p \<in> set [''exists.png'', ''missing.xyz''].
      existsSync example_world p \<and> readFile example_world p = Inr ''PNG-bytes'' \<and>
      getMimeType p = Some ''image/png''"
    by simp
  have c: "fst (prepareMediaData example_world [''exists.png'', ''gone.jpg'', ''missing.xyz'']
     new_TwitterPost) = Inr []"
    by code_simp
  show ?thesis
    by (intro conjI; (fact a | fact b | fact c))
qed

text \<open>
  C10. If the read of any file of the input throws (the file passed the existence check
  and cannot be read), \<open>prepareMediaData\<close> catches the exception, logs it and returns
  the empty list: the attachments already prepared from earlier paths are discarded
  with it.
\<close>

theorem prepareMediaData_read_error_discards_all:
  assumes "p \<in> set paths" and "existsSync w p" and "readFile w p = Inl e"
  shows "\<exists>s' e'. prepareMediaData w paths s = (Inr [], s') \<and>
           last (trace s') = Console ErrorLevel ''Media preparation error:'' (Some e') \<and>
           (\<exists>q \<in> set paths. existsSync w q \<and> readFile w q = Inl e')"
proof -
  from assms have fails: "read_fails w paths"
    by (auto simp: read_fails_def list_ex_iff)
  obtain r s' where run: "prepareMediaData w paths s = (r, s')"
    by (cases "prepareMediaData w paths s")
  from prepareMediaData_result [OF run] fails run show ?thesis
    by auto
qed

theorem prepareMediaData_read_error_discards_all_witness:
  "''gone.jpg'' \<in> set [''exists.png'', ''gone.jpg''] \<and>
   existsSync example_world ''gone.jpg'' \<and>
   readFile example_world ''gone.jpg'' = Inl (Error ''ENOENT: no such file or directory'') \<and>
   fst (prepareMediaData example_world [''exists.png''] new_TwitterPost) =
     Inr [\<lparr>data = ''PNG-bytes'', mediaType = ''image/png''\<rparr>] \<and>
   fst (prepareMediaData example_world [''exists.png'', ''gone.jpg''] new_TwitterPost) = Inr []"
proof -
  have a: "''gone.jpg'' \<in> set [''exists.png'', ''gone.jpg'']"
    by simp
  have b: "existsSync example_world ''gone.jpg''"
    by (simp add: example_world_def)
  have c: "readFile example_world ''gone.jpg'' = Inl (Error ''ENOENT: no such file or directory'')"
    by (simp add: example_world_def)
  have d: "fst (prepareMediaData example_world [''exists.png''] new_TwitterPost) =
     Inr [\<lparr>data = ''PNG-bytes'', mediaType = ''image/png''\<rparr>]"
    by code_simp
  from prepareMediaData_read_error_discards_all [OF a b c, of new_TwitterPost]
  have e: "fst (prepareMediaData example_world [''exists.png'', ''gone.jpg''] new_TwitterPost) = Inr []"
    by auto
  show ?thesis
    by (intro conjI; (fact a | fact b | fact c | fact d | fact e))
qed

text \<open>
  C4, as the specification states it: the result of \<open>prepareMediaData\<close> is, for every
  file system, one attachment for each path that exists and is of a supported type
  (\<open>selected_attachments\<close>). It fails where a path that exists cannot be read: the
  content of a path is read before its type is looked at, and an exception of the read
  empties the result. Here \<open>album\<close> is a directory, of no supported type, and
  \<open>exists.png\<close> is a readable picture: the specification promises one attachment, the
  code returns none.
\<close>

theorem prepareMediaData_unreadable_counterexample:
  "selected_attachments example_world [''album'', ''exists.png''] =
     [\<lparr>data = ''PNG-bytes'', mediaType = ''image/png''\<rparr>] \<and>
   fst (prepareMediaData example_world [''album'', ''exists.png''] new_TwitterPost) = Inr []"
  by code_simp

lemma prepare_loop_logs:
  assumes "prepare_loop w paths acc s = (Inr ms, s')" and "p \<in> set paths"
  shows "(\<not> existsSync w p \<longrightarrow>
            Console ErrorLevel (''File not found: '' @ p) None \<in> set (events_since s s')) \<and>
         (existsSync w p \<and> getMimeType p = None \<longrightarrow>
            Console ErrorLevel (''Unsupported file type: '' @ p) None \<in> set (events_since s s'))"
  using assms
proof (induction paths arbitrary: acc s)
  case Nil
  then show ?case by simp
next
  case (Cons q rest)
  let ?goal = "\<lambda>s0. (\<not> existsSync w p \<longrightarrow>
            Console ErrorLevel (''File not found: '' @ p) None \<in> set (events_since s0 s')) \<and>
         (existsSync w p \<and> getMimeType p = None \<longrightarrow>
            Console ErrorLevel (''Unsupported file type: '' @ p) None \<in> set (events_since s0 s'))"
  have later: "?goal s" if run: "prepare_loop w rest acc1 (s\<lparr>trace := trace s @ evs\<rparr>) = (Inr ms, s')"
    and here: "p = q \<longrightarrow> (\<not> existsSync w p \<longrightarrow>
            Console ErrorLevel (''File not found: '' @ p) None \<in> set evs) \<and>
         (existsSync w p \<and> getMimeType p = None \<longrightarrow>
            Console ErrorLevel (''Unsupported file type: '' @ p) None \<in> set evs)"
    for acc1 evs
  proof -
    from prepare_loop_result [OF run] obtain evs' where
      tr: "trace s' = trace s @ evs @ evs'" by auto
    show ?thesis
    proof (cases "p = q")
      case True
      with here tr show ?thesis
        by (auto simp: events_since_def)
    next
      case False
      with Cons.prems have "p \<in> set rest" by simp
      from Cons.IH [OF run this] tr show ?thesis
        by (auto simp: events_since_def)
    qed
  qed
  show ?case
  proof (cases "existsSync w q")
    case False
    with Cons.prems(1) show ?thesis
      by (intro later [where evs = "[ExistsSync q, Console ErrorLevel (''File not found: '' @ q) None]"])
        (simp_all add: prepare_loop_Cons del: prepare_loop.simps)
  next
    case True
    show ?thesis
    proof (cases "readFile w q")
      case (Inl e)
      with Cons.prems(1) True show ?thesis
        by (simp add: prepare_loop_Cons del: prepare_loop.simps)
    next
      case (Inr content)
      show ?thesis
      proof (cases "getMimeType q")
        case None
        with Cons.prems(1) True Inr show ?thesis
          by (intro later [where evs = "[ExistsSync q, ReadFile q,
              Console ErrorLevel (''Unsupported file type: '' @ q) None]"])
            (simp_all add: prepare_loop_Cons del: prepare_loop.simps)
      next
        case (Some mtype)
        with Cons.prems(1) True Inr show ?thesis
          by (intro later [where evs = "[ExistsSync q, ReadFile q]"])
            (simp_all add: prepare_loop_Cons del: prepare_loop.simps)
      qed
    qed
  qed
qed

text \<open>
  C4, amended. On every sequence of paths in which each path that exists can be read,
  \<open>prepareMediaData\<close> skips, with a logged error and no exception, each path that
  does not exist or whose type is not supported, and returns for the remaining paths,
  in the order of the input, one attachment each: the full content of the file and its
  MIME type. On \<open>exists.png, missing.xyz\<close>, where only the first exists, it returns
  exactly one attachment.
\<close>

theorem prepareMediaData_skips_and_attaches:
  assumes "\<forall>p \<in> set paths. existsSync w p \<longrightarrow> (\<exists>content. readFile w p = Inr content)"
  shows "\<exists>s'. prepareMediaData w paths s =
           (Inr (map (\<lambda>p. \<lparr>data = file_content w p, mediaType = the (getMimeType p)\<rparr>)
                  (filter (\<lambda>p. existsSync w p \<and> getMimeType p \<noteq> None) paths)), s') \<and>
         (\<forall>p \<in> set paths.
            (\<not> existsSync w p \<longrightarrow>
               Console ErrorLevel (''File not found: '' @ p) None \<in> set (events_since s s')) \<and>
            (existsSync w p \<and> getMimeType p = None \<longrightarrow>
               Console ErrorLevel (''Unsupported file type: '' @ p) None \<in> set (events_since s s')))"
proof -
  from assms have ok: "\<not> read_fails w paths"
    by (auto simp: read_fails_def list_ex_iff)
  let ?s0 = "s\<lparr>trace := trace s @ [Invoke PrepareMediaData]\<rparr>"
  obtain r1 s1 where loop: "prepare_loop w paths [] ?s0 = (r1, s1)"
    by (cases "prepare_loop w paths [] ?s0")
  from prepare_loop_result [OF loop] ok
  have r1: "r1 = Inr (selected_attachments w paths)"
    and tr: "\<exists>evs. trace s1 = trace ?s0 @ evs"
    by auto
  with loop have run: "prepareMediaData w paths s = (Inr (selected_attachments w paths), s1)"
    by (simp add: prepareMediaData_def prog_defs)
  have "events_since ?s0 s1 = tl (events_since s s1)"
    using tr by (auto simp: events_since_def)
  then have sub: "set (events_since ?s0 s1) \<subseteq> set (events_since s s1)"
    by (metis list.sel(2) list.set_sel(2) subsetI)
  have "(\<not> existsSync w p \<longrightarrow>
               Console ErrorLevel (''File not found: '' @ p) None \<in> set (events_since s s1)) \<and>
            (existsSync w p \<and> getMimeType p = None \<longrightarrow>
               Console ErrorLevel (''Unsupported file type: '' @ p) None \<in> set (events_since s s1))"
    if "p \<in> set paths" for p
    using prepare_loop_logs [OF loop [unfolded r1] that] sub by blast
  with run show ?thesis
    by (auto simp: selected_attachments_def)
qed

theorem prepareMediaData_skips_and_attaches_witness:
  "existsSync example_world ''exists.png'' \<and>
   readFile example_world ''exists.png'' = Inr ''PNG-bytes'' \<and>
   \<not> existsSync example_world ''missing.xyz'' \<and>
   fst (prepareMediaData example_world [''exists.png'', ''missing.xyz''] new_TwitterPost) =
     Inr [\<lparr>data = ''PNG-bytes'', mediaType = ''image/png''\<rparr>] \<and>
   Console ErrorLevel ''File not found: missing.xyz'' None \<in>
     set (trace (snd (prepareMediaData example_world [''exists.png'', ''missing.xyz'']
       new_TwitterPost)))"
proof -
  have a: "\<forall>p \<in> set [''exists.png'', ''missing.xyz''].
      existsSync example_world p \<longrightarrow> (\<exists>content. readFile example_world p = Inr content)"
    by (simp add: example_world_def)
  have sel: "map (\<lambda>p. \<lparr>data = file_content example_world p, mediaType = the (getMimeType p)\<rparr>)
        (filter (\<lambda>p. existsSync example_world p \<and> getMimeType p \<noteq> None)
           [''exists.png'', ''missing.xyz'']) =
      [\<lparr>data = ''PNG-bytes'', mediaType = ''image/png''\<rparr>]"
    by code_simp
  have miss: "\<not> existsSync example_world ''missing.xyz''"
    by (simp add: example_world_def)
  from prepareMediaData_skips_and_attaches [OF a, of new_TwitterPost] obtain s' where
    run: "prepareMediaData example_world [''exists.png'', ''missing.xyz''] new_TwitterPost =
      (Inr [\<lparr>data = ''PNG-bytes'', mediaType = ''image/png''\<rparr>], s')"
    and logs: "Console ErrorLevel (''File not found: '' @ ''missing.xyz'') None \<in>
      set (events_since new_TwitterPost s')"
    unfolding sel using miss by auto
  from logs have "Console ErrorLevel ''File not found: missing.xyz'' None \<in> set (trace s')"
    by (auto simp: events_since_def new_TwitterPost_def)
  with run show ?thesis
    by (simp add: example_world_def)
qed

subsection \<open>Post dispatcher: C1 and C2\<close>

lemma post_after_session:
  assumes "ensure_session w (s\<lparr>trace := trace s @ [Invoke Post]\<rparr>) = (Inr (), s1)"
  shows "post w tweet mediaFiles s =
     try_catch
       (if length mediaFiles = 0 then
          andThen (call (SendTweet tweet None None) (scraper_sendTweet w tweet None None)) (\<lambda>_.
          andThen (console LogLevel (''Text tweet sent: '' @ tweet) None) (\<lambda>_.
          ok True))
        else
          andThen (prepareMediaData w mediaFiles) (\<lambda>mediaData.
          andThen
            (if length mediaData > 0 then
               andThen (call (SendTweet tweet None (Some mediaData))
                          (scraper_sendTweet w tweet None (Some mediaData))) (\<lambda>_.
               console LogLevel
                 (''Tweet sent with '' @ show_nat (length mediaData) @ '' media attachments'')
                 None)
             else
               andThen (call (SendTweet tweet None None)
                          (scraper_sendTweet w tweet None None)) (\<lambda>_.
               console LogLevel ''Media preparation failed, sent as text-only tweet'' None))
            (\<lambda>_. ok True)))
       (\<lambda>error.
          andThen (console ErrorLevel ''Posting error:'' (Some error)) (\<lambda>_. throw error))
       s1"
  using assms
  by (simp add: post_def andThen_def try_catch_def emit_def)

text \<open>
  C1. Once the session is ensured and the platform accepts the text-only request: with
  an empty list of media paths, \<open>post\<close> sends the text alone, returns \<open>true\<close> and
  never enters \<open>prepareMediaData\<close>; with a non-empty list from which
  \<open>prepareMediaData\<close> prepares no attachment, \<open>post\<close> falls back to the same
  text-only request and still returns \<open>true\<close>.
\<close>

theorem post_text_only:
  assumes "ensure_session w (s\<lparr>trace := trace s @ [Invoke Post]\<rparr>) = (Inr (), s1)"
    and "scraper_sendTweet w tweet None None = Inr ()"
  shows "(mediaFiles = [] \<longrightarrow>
            post w tweet mediaFiles s =
              (Inr True,
               s1\<lparr>trace := trace s1 @ [SendTweet tweet None None,
                  Console LogLevel (''Text tweet sent: '' @ tweet) None]\<rparr>) \<and>
            Invoke PrepareMediaData \<notin>
              set (events_since s (snd (post w tweet mediaFiles s)))) \<and>
         (mediaFiles \<noteq> [] \<and> prepareMediaData w mediaFiles s1 = (Inr [], s2) \<longrightarrow>
            post w tweet mediaFiles s =
              (Inr True,
               s2\<lparr>trace := trace s2 @ [SendTweet tweet None None,
                  Console LogLevel ''Media preparation failed, sent as text-only tweet''
                    None]\<rparr>))"
proof (intro conjI impI)
  assume empty: "mediaFiles = []"
  from assms(2) empty
  show run: "post w tweet mediaFiles s =
      (Inr True,
       s1\<lparr>trace := trace s1 @ [SendTweet tweet None None,
          Console LogLevel (''Text tweet sent: '' @ tweet) None]\<rparr>)"
    by (simp add: post_after_session [OF assms(1)] prog_defs)
  from ensure_session_step [OF assms(1)] obtain evs where
    evs: "trace s1 = trace s @ Invoke Post # evs" "list_all session_event evs"
    by (auto simp: session_step_def)
  then have "Invoke PrepareMediaData \<notin> set evs"
    by (auto simp: list_all_iff)
  with evs show "Invoke PrepareMediaData \<notin> set (events_since s (snd (post w tweet mediaFiles s)))"
    by (simp add: run events_since_def)
next
  assume "mediaFiles \<noteq> [] \<and> prepareMediaData w mediaFiles s1 = (Inr [], s2)"
  with assms(2)
  show "post w tweet mediaFiles s =
      (Inr True,
       s2\<lparr>trace := trace s2 @ [SendTweet tweet None None,
          Console LogLevel ''Media preparation failed, sent as text-only tweet'' None]\<rparr>)"
    by (simp add: post_after_session [OF assms(1)] prog_defs)
qed


theorem post_text_only_witness:
  "fst (post example_world ''hello'' [] new_TwitterPost) = Inr True \<and>
   take 2 (rev (trace (snd (post example_world ''hello'' [] new_TwitterPost)))) =
     [Console LogLevel ''Text tweet sent: hello'' None, SendTweet ''hello'' None None] \<and>
   Invoke PrepareMediaData \<notin>
     set (events_since new_TwitterPost (snd (post example_world ''hello'' [] new_TwitterPost))) \<and>
   fst (prepareMediaData example_world [''missing.jpg'']
     (snd (ensure_session example_world
        (new_TwitterPost\<lparr>trace := trace new_TwitterPost @ [Invoke Post]\<rparr>)))) = Inr [] \<and>
   fst (post example_world ''hello'' [''missing.jpg''] new_TwitterPost) = Inr True \<and>
   take 2 (rev (trace (snd (post example_world ''hello'' [''missing.jpg''] new_TwitterPost)))) =
     [Console LogLevel ''Media preparation failed, sent as text-only tweet'' None,
      SendTweet ''hello'' None None]"
proof -
  let ?s0 = "new_TwitterPost\<lparr>trace := trace new_TwitterPost @ [Invoke Post]\<rparr>"
  let ?s1 = "snd (ensure_session example_world ?s0)"
  let ?s2 = "snd (prepareMediaData example_world [''missing.jpg''] ?s1)"
  have "fst (ensure_session example_world ?s0) = Inr ()"
    by code_simp
  then have session: "ensure_session example_world ?s0 = (Inr (), ?s1)"
    by (metis prod.collapse)
  have send: "scraper_sendTweet example_world ''hello'' None None = Inr ()"
    by (simp add: example_world_def)
  have d: "fst (prepareMediaData example_world [''missing.jpg''] ?s1) = Inr []"
    by code_simp
  then have media: "prepareMediaData example_world [''missing.jpg''] ?s1 = (Inr [], ?s2)"
    by (metis prod.collapse)
  note inst = post_text_only [OF session send]
  from inst [of "[]"] have run: "post example_world ''hello'' [] new_TwitterPost =
      (Inr True, ?s1\<lparr>trace := trace ?s1 @
         [SendTweet ''hello'' None None, Console LogLevel ''Text tweet sent: hello'' None]\<rparr>)"
    by simp
  have a: "fst (post example_world ''hello'' [] new_TwitterPost) = Inr True"
    by (simp add: run)
  have b: "take 2 (rev (trace (snd (post example_world ''hello'' [] new_TwitterPost)))) =
     [Console LogLevel ''Text tweet sent: hello'' None, SendTweet ''hello'' None None]"
    by (simp add: run)
  from inst [of "[]"] have c: "Invoke PrepareMediaData \<notin>
      set (events_since new_TwitterPost (snd (post example_world ''hello'' [] new_TwitterPost)))"
    by blast
  from inst [of "[''missing.jpg'']" ?s2] media
  have run2: "post example_world ''hello'' [''missing.jpg''] new_TwitterPost =
      (Inr True, ?s2\<lparr>trace := trace ?s2 @ [SendTweet ''hello'' None None,
         Console LogLevel ''Media preparation failed, sent as text-only tweet'' None]\<rparr>)"
    by simp
  have e: "fst (post example_world ''hello'' [''missing.jpg''] new_TwitterPost) = Inr True"
    by (simp add: run2)
  have f: "take 2 (rev (trace (snd (post example_world ''hello'' [''missing.jpg'']
        new_TwitterPost)))) =
     [Console LogLevel ''Media preparation failed, sent as text-only tweet'' None,
      SendTweet ''hello'' None None]"
    by (simp add: run2)
  show ?thesis
    by (intro conjI; (fact a | fact b | fact c | fact d | fact e | fact f))
qed


text \<open>
  C2. \<open>replyToTweet\<close> has no branch on the result of the media preparation: once the
  session is ensured it prepares the attachments and calls the platform client with the
  identifier of the tweet and exactly the list that \<open>prepareMediaData\<close> returned,
  also when that list is empty (as it is for an empty list of paths); the call's
  failure is the failure of the reply.
\<close>

theorem replyToTweet_sends_prepared:
  assumes "ensure_session w (s\<lparr>trace := trace s @ [Invoke ReplyToTweet]\<rparr>) = (Inr (), s1)"
  shows "\<exists>mediaData s2.
           prepareMediaData w mediaFiles s1 = (Inr mediaData, s2) \<and>
           (mediaFiles = [] \<longrightarrow> mediaData = []) \<and>
           replyToTweet w tweetId reply mediaFiles s =
             (case scraper_sendTweet w reply (Some tweetId) (Some mediaData) of
                Inr _ \<Rightarrow>
                  (Inr True,
                   s2\<lparr>trace := trace s2 @
                      [SendTweet reply (Some tweetId) (Some mediaData),
                       Console LogLevel (''Reply sent to tweet '' @ tweetId) None]\<rparr>)
              | Inl e \<Rightarrow>
                  (Inl e,
                   s2\<lparr>trace := trace s2 @
                      [SendTweet reply (Some tweetId) (Some mediaData),
                       Console ErrorLevel ''Reply error:'' (Some e)]\<rparr>))"
proof -
  obtain r2 s2 where media: "prepareMediaData w mediaFiles s1 = (r2, s2)"
    by (cases "prepareMediaData w mediaFiles s1")
  from prepareMediaData_result [OF media] obtain mediaData where
    r2: "r2 = Inr mediaData"
    and md: "mediaData = (if read_fails w mediaFiles then [] else selected_attachments w mediaFiles)"
    by simp
  have empty: "mediaFiles = [] \<longrightarrow> mediaData = []"
    by (simp add: md selected_attachments_def)
  have "replyToTweet w tweetId reply mediaFiles s =
      (case scraper_sendTweet w reply (Some tweetId) (Some mediaData) of
         Inr _ \<Rightarrow>
           (Inr True,
            s2\<lparr>trace := trace s2 @
               [SendTweet reply (Some tweetId) (Some mediaData),
                Console LogLevel (''Reply sent to tweet '' @ tweetId) None]\<rparr>)
       | Inl e \<Rightarrow>
           (Inl e,
            s2\<lparr>trace := trace s2 @
               [SendTweet reply (Some tweetId) (Some mediaData),
                Console ErrorLevel ''Reply error:'' (Some e)]\<rparr>))"
    using assms media r2
    by (simp add: replyToTweet_def prog_defs split: sum.splits)
  with media r2 empty show ?thesis
    by blast
qed

theorem replyToTweet_sends_prepared_witness:
  "fst (replyToTweet example_world ''42'' ''hello'' [] new_TwitterPost) = Inr True \<and>
   take 2 (rev (trace (snd (replyToTweet example_world ''42'' ''hello'' [] new_TwitterPost)))) =
     [Console LogLevel ''Reply sent to tweet 42'' None,
      SendTweet ''hello'' (Some ''42'') (Some [])]"
proof -
  let ?s0 = "new_TwitterPost\<lparr>trace := trace new_TwitterPost @ [Invoke ReplyToTweet]\<rparr>"
  let ?s1 = "snd (ensure_session example_world ?s0)"
  have "fst (ensure_session example_world ?s0) = Inr ()"
    by code_simp
  then have session: "ensure_session example_world ?s0 = (Inr (), ?s1)"
    by (metis prod.collapse)
  have send: "scraper_sendTweet example_world ''hello'' (Some ''42'') (Some []) = Inr ()"
    by (simp add: example_world_def)
  from replyToTweet_sends_prepared [OF session, of "[]" "''42''" "''hello''"]
  obtain s2 where run: "replyToTweet example_world ''42'' ''hello'' [] new_TwitterPost =
      (Inr True,
       s2\<lparr>trace := trace s2 @
          [SendTweet ''hello'' (Some ''42'') (Some []),
           Console LogLevel (''Reply sent to tweet '' @ ''42'') None]\<rparr>)"
    by (auto simp: send)
  show ?thesis
    by (simp add: run)
qed

subsection \<open>Sends happen in a session: C8\<close>

lemma media_event_neutral: "media_event ev \<Longrightarrow> neutral_event ev"
  by (cases ev rule: media_event.cases) simp_all

lemma send_guarded_media:
  assumes "list_all media_event xs"
  shows "send_guarded w flag auth (xs @ ys) = send_guarded w flag auth ys"
  using assms
proof (induction xs)
  case Nil
  then show ?case by simp
next
  case (Cons x xs)
  then show ?case
    by (cases x rule: media_event.cases) simp_all
qed

lemma guarded_after_session:
  assumes step: "session_step w s0 s1"
    and s0: "s0 = s\<lparr>trace := trace s @ [Invoke opn]\<rparr>"
    and tail: "trace s' = trace s1 @ rest"
    and rest: "isLoggedIn s1 \<Longrightarrow> send_guarded w True True rest"
    and quiet: "\<not> isLoggedIn s1 \<Longrightarrow> list_all session_event rest"
  shows "trace s' = trace s @ events_since s s' \<and>
         send_guarded w (isLoggedIn s) (isLoggedIn s) (events_since s s')"
proof -
  from step s0 obtain evs where evs: "trace s1 = trace s @ Invoke opn # evs"
    and sess: "list_all session_event evs"
    and guard: "case guard_after w (isLoggedIn s, isLoggedIn s) evs of
      (flag, auth) \<Rightarrow> flag = isLoggedIn s1 \<and> (flag \<longrightarrow> auth)"
    by (auto simp: session_step_def)
  from evs tail have ev: "events_since s s' = Invoke opn # evs @ rest"
    by (simp add: events_since_def)
  obtain f1 a1 where g: "guard_after w (isLoggedIn s, isLoggedIn s) evs = (f1, a1)"
    by (cases "guard_after w (isLoggedIn s, isLoggedIn s) evs")
  with guard have f1: "f1 = isLoggedIn s1" and a1: "f1 \<longrightarrow> a1" by simp_all
  have "send_guarded w f1 a1 rest"
  proof (cases "isLoggedIn s1")
    case True
    with f1 a1 rest show ?thesis by simp
  next
    case False
    from quiet [OF False] show ?thesis
      by (rule send_guarded_session)
  qed
  with sess g have "send_guarded w (isLoggedIn s) (isLoggedIn s) (Invoke opn # evs @ rest)"
    by (cases opn) (simp_all add: send_guarded_append send_guarded_session)
  with ev evs tail show ?thesis
    by simp
qed

lemma post_guarded:
  assumes "post w tweet mediaFiles s = (r, s')"
  shows "trace s' = trace s @ events_since s s' \<and>
         send_guarded w (isLoggedIn s) (isLoggedIn s) (events_since s s') \<and>
         (\<not> isLoggedIn s \<longrightarrow> take 2 (events_since s s') = [Invoke Post, Invoke Initialize])"
proof -
  let ?s0 = "s\<lparr>trace := trace s @ [Invoke Post]\<rparr>"
  obtain r1 s1 where session: "ensure_session w ?s0 = (r1, s1)"
    by (cases "ensure_session w ?s0")
  note sess = ensure_session_step [OF session]
  from sess have step: "session_step w ?s0 s1" by simp
  have "\<exists>rest. trace s' = trace s1 @ rest \<and>
          (isLoggedIn s1 \<longrightarrow> send_guarded w True True rest) \<and>
          (\<not> isLoggedIn s1 \<longrightarrow> list_all session_event rest)"
  proof (cases r1)
    case (Inl e)
    with assms session
    have "s' = s1\<lparr>trace := trace s1 @ [Console ErrorLevel ''Posting error:'' (Some e)]\<rparr>"
      by (auto simp: post_def prog_defs)
    then show ?thesis by simp
  next
    case (Inr u)
    with sess have logged: "isLoggedIn s1" by simp
    from Inr session have session': "ensure_session w ?s0 = (Inr (), s1)" by simp
    note run = assms [unfolded post_after_session [OF session']]
    show ?thesis
    proof (cases "mediaFiles = []")
      case True
      have "\<exists>l msg err. s' = s1\<lparr>trace := trace s1 @
          [SendTweet tweet None None, Console l msg err]\<rparr>"
      proof (cases "scraper_sendTweet w tweet None None")
        case (Inl e)
        with run True show ?thesis by (auto simp: prog_defs)
      next
        case (Inr u)
        with run True show ?thesis by (auto simp: prog_defs)
      qed
      then obtain l msg err where
        "s' = s1\<lparr>trace := trace s1 @ [SendTweet tweet None None, Console l msg err]\<rparr>"
        by blast
      with logged show ?thesis
        by simp
    next
      case False
      obtain r2 s2 where media: "prepareMediaData w mediaFiles s1 = (r2, s2)"
        by (cases "prepareMediaData w mediaFiles s1")
      from prepareMediaData_result [OF media] obtain evs2 mediaData where
        tr2: "trace s2 = trace s1 @ Invoke PrepareMediaData # evs2"
        and ev2: "list_all media_event evs2"
        and r2: "r2 = Inr mediaData"
        by auto
      let ?m = "if mediaData = [] then None else Some mediaData"
      have "\<exists>l msg err. s' = s2\<lparr>trace := trace s2 @
          [SendTweet tweet None ?m, Console l msg err]\<rparr>"
      proof (cases "scraper_sendTweet w tweet None ?m")
        case (Inl e)
        with run False media r2 show ?thesis
          by (cases "mediaData = []") (auto simp: prog_defs)
      next
        case (Inr u)
        with run False media r2 show ?thesis
          by (cases "mediaData = []") (auto simp: prog_defs)
      qed
      then obtain l msg err where
        s': "s' = s2\<lparr>trace := trace s2 @ [SendTweet tweet None ?m, Console l msg err]\<rparr>"
        by blast
      have "send_guarded w True True
          ((Invoke PrepareMediaData # evs2) @ [SendTweet tweet None ?m, Console l msg err])"
        using ev2 by (simp add: send_guarded_media)
      with s' tr2 logged show ?thesis
        by (intro exI [of _ "(Invoke PrepareMediaData # evs2) @
              [SendTweet tweet None ?m, Console l msg err]"]) simp
    qed
  qed
  then obtain rest where tail: "trace s' = trace s1 @ rest"
    and rest: "isLoggedIn s1 \<Longrightarrow> send_guarded w True True rest"
    and quiet: "\<not> isLoggedIn s1 \<Longrightarrow> list_all session_event rest"
    by blast
  note main = guarded_after_session [OF step refl tail rest quiet]
  have "take 2 (events_since s s') = [Invoke Post, Invoke Initialize]" if "\<not> isLoggedIn s"
  proof -
    from sess that obtain evs where "trace s1 = trace s @ [Invoke Post] @ Invoke Initialize # evs"
      by auto
    with tail show ?thesis
      by (simp add: events_since_def)
  qed
  with main show ?thesis by simp
qed


lemma reply_guarded:
  assumes "replyToTweet w tweetId reply mediaFiles s = (r, s')"
  shows "trace s' = trace s @ events_since s s' \<and>
         send_guarded w (isLoggedIn s) (isLoggedIn s) (events_since s s') \<and>
         (\<not> isLoggedIn s \<longrightarrow>
            take 2 (events_since s s') = [Invoke ReplyToTweet, Invoke Initialize])"
proof -
  let ?s0 = "s\<lparr>trace := trace s @ [Invoke ReplyToTweet]\<rparr>"
  obtain r1 s1 where session: "ensure_session w ?s0 = (r1, s1)"
    by (cases "ensure_session w ?s0")
  note sess = ensure_session_step [OF session]
  from sess have step: "session_step w ?s0 s1" by simp
  have "\<exists>rest. trace s' = trace s1 @ rest \<and>
          (isLoggedIn s1 \<longrightarrow> send_guarded w True True rest) \<and>
          (\<not> isLoggedIn s1 \<longrightarrow> list_all session_event rest)"
  proof (cases r1)
    case (Inl e)
    with assms session
    have "s' = s1\<lparr>trace := trace s1 @ [Console ErrorLevel ''Reply error:'' (Some e)]\<rparr>"
      by (auto simp: replyToTweet_def prog_defs)
    then show ?thesis by simp
  next
    case (Inr u)
    with sess have logged: "isLoggedIn s1" by simp
    obtain r2 s2 where media: "prepareMediaData w mediaFiles s1 = (r2, s2)"
      by (cases "prepareMediaData w mediaFiles s1")
    from prepareMediaData_result [OF media] obtain evs2 mediaData where
      tr2: "trace s2 = trace s1 @ Invoke PrepareMediaData # evs2"
      and ev2: "list_all media_event evs2"
      and r2: "r2 = Inr mediaData"
      by auto
    have "\<exists>l msg err. s' = s2\<lparr>trace := trace s2 @
        [SendTweet reply (Some tweetId) (Some mediaData), Console l msg err]\<rparr>"
    proof (cases "scraper_sendTweet w reply (Some tweetId) (Some mediaData)")
      case (Inl e)
      with assms session Inr media r2 show ?thesis
        by (auto simp: replyToTweet_def prog_defs)
    next
      case ok: (Inr v)
      with assms session Inr media r2 show ?thesis
        by (auto simp: replyToTweet_def prog_defs)
    qed
    then obtain l msg err where
      s': "s' = s2\<lparr>trace := trace s2 @
        [SendTweet reply (Some tweetId) (Some mediaData), Console l msg err]\<rparr>"
      by blast
    have "send_guarded w True True
        ((Invoke PrepareMediaData # evs2) @
         [SendTweet reply (Some tweetId) (Some mediaData), Console l msg err])"
      using ev2 by (simp add: send_guarded_media)
    with s' tr2 logged show ?thesis
      by (intro exI [of _ "(Invoke PrepareMediaData # evs2) @
            [SendTweet reply (Some tweetId) (Some mediaData), Console l msg err]"]) simp
  qed
  then obtain rest where tail: "trace s' = trace s1 @ rest"
    and rest: "isLoggedIn s1 \<Longrightarrow> send_guarded w True True rest"
    and quiet: "\<not> isLoggedIn s1 \<Longrightarrow> list_all session_event rest"
    by blast
  note main = guarded_after_session [OF step refl tail rest quiet]
  have "take 2 (events_since s s') = [Invoke ReplyToTweet, Invoke Initialize]"
    if "\<not> isLoggedIn s"
  proof -
    from sess that obtain evs where
      "trace s1 = trace s @ [Invoke ReplyToTweet] @ Invoke Initialize # evs"
      by auto
    with tail show ?thesis
      by (simp add: events_since_def)
  qed
  with main show ?thesis by simp
qed

text \<open>
  C8. \<open>post\<close> and \<open>replyToTweet\<close> call \<open>initialize\<close> first whenever the flag
  \<open>isLoggedIn\<close> is false, and in every run of either, throwing or not, each call of the
  platform client's \<open>sendTweet\<close> happens while the flag is true and after a successful
  cookie load or a successful login (or in a session that was authenticated before the
  call): \<open>send_guarded\<close> reads the events of the run from left to right and checks
  both at every \<open>SendTweet\<close>.
\<close>

theorem send_only_in_session:
  "(post w tweet mediaFiles s = (r, s') \<longrightarrow>
      trace s' = trace s @ events_since s s' \<and>
      send_guarded w (isLoggedIn s) (isLoggedIn s) (events_since s s') \<and>
      (\<not> isLoggedIn s \<longrightarrow> take 2 (events_since s s') = [Invoke Post, Invoke Initialize])) \<and>
   (replyToTweet w tweetId tweet mediaFiles s = (r, s') \<longrightarrow>
      trace s' = trace s @ events_since s s' \<and>
      send_guarded w (isLoggedIn s) (isLoggedIn s) (events_since s s') \<and>
      (\<not> isLoggedIn s \<longrightarrow>
         take 2 (events_since s s') = [Invoke ReplyToTweet, Invoke Initialize]))"
  using post_guarded [of w tweet mediaFiles s r s']
    reply_guarded [of w tweetId tweet mediaFiles s r s']
  by blast

theorem send_only_in_session_witness:
  "\<not> isLoggedIn new_TwitterPost \<and>
   SendTweet ''hello'' None None \<in>
     set (events_since new_TwitterPost
            (snd (post stored_world ''hello'' [''missing.jpg''] new_TwitterPost))) \<and>
   send_guarded stored_world False False
     (events_since new_TwitterPost
        (snd (post stored_world ''hello'' [''missing.jpg''] new_TwitterPost))) \<and>
   take 2 (events_since new_TwitterPost
        (snd (post stored_world ''hello'' [''missing.jpg''] new_TwitterPost))) =
     [Invoke Post, Invoke Initialize] \<and>
   send_guarded example_world False False
     (events_since new_TwitterPost
        (snd (replyToTweet example_world ''42'' ''hello'' [] new_TwitterPost))) \<and>
   take 2 (events_since new_TwitterPost
        (snd (replyToTweet example_world ''42'' ''hello'' [] new_TwitterPost))) =
     [Invoke ReplyToTweet, Invoke Initialize]"
proof -
  have a: "\<not> isLoggedIn new_TwitterPost"
    by (simp add: new_TwitterPost_def)
  have b: "SendTweet ''hello'' None None \<in>
     set (events_since new_TwitterPost
            (snd (post stored_world ''hello'' [''missing.jpg''] new_TwitterPost)))"
    by code_simp
  have p: "post stored_world ''hello'' [''missing.jpg''] new_TwitterPost =
      (fst (post stored_world ''hello'' [''missing.jpg''] new_TwitterPost),
       snd (post stored_world ''hello'' [''missing.jpg''] new_TwitterPost))"
    by simp
  have q: "replyToTweet example_world ''42'' ''hello'' [] new_TwitterPost =
      (fst (replyToTweet example_world ''42'' ''hello'' [] new_TwitterPost),
       snd (replyToTweet example_world ''42'' ''hello'' [] new_TwitterPost))"
    by simp
  from send_only_in_session [of stored_world "''hello''" "[''missing.jpg'']" new_TwitterPost
      "fst (post stored_world ''hello'' [''missing.jpg''] new_TwitterPost)"
      "snd (post stored_world ''hello'' [''missing.jpg''] new_TwitterPost)"] p a
  have c: "send_guarded stored_world False False
     (events_since new_TwitterPost
        (snd (post stored_world ''hello'' [''missing.jpg''] new_TwitterPost)))"
    and d: "take 2 (events_since new_TwitterPost
        (snd (post stored_world ''hello'' [''missing.jpg''] new_TwitterPost))) =
     [Invoke Post, Invoke Initialize]"
    by simp_all
  from reply_guarded [OF q] a
  have e: "send_guarded example_world False False
     (events_since new_TwitterPost
        (snd (replyToTweet example_world ''42'' ''hello'' [] new_TwitterPost)))"
    and f: "take 2 (events_since new_TwitterPost
        (snd (replyToTweet example_world ''42'' ''hello'' [] new_TwitterPost))) =
     [Invoke ReplyToTweet, Invoke Initialize]"
    by simp_all
  show ?thesis
    by (intro conjI; (fact a | fact b | fact c | fact d | fact e | fact f))
qed

subsection \<open>Cookie store: C6\<close>

lemma parsed_valid_cookies:
  "map the (filter (\<lambda>cookie. cookie \<noteq> None)
      (map (\<lambda>entry. case Cookie_fromJSON w entry of Inr c \<Rightarrow> c | Inl _ \<Rightarrow> None) entries)) =
   valid_cookies w entries"
  by (induction entries) (auto simp: valid_cookies_def split: sum.splits option.splits)

lemma parsed_valid_cookies_Nil:
  "filter (\<lambda>cookie. cookie \<noteq> None)
      (map (\<lambda>entry. case Cookie_fromJSON w entry of Inr c \<Rightarrow> c | Inl _ \<Rightarrow> None) entries) = [] \<longleftrightarrow>
   valid_cookies w entries = []"
  using parsed_valid_cookies [of w entries] by (metis map_is_Nil_conv)

lemma loaded_cookies_parse_warnings:
  "loaded_cookies (parse_warnings w entries @ evs) = loaded_cookies evs"
  by (induction entries) (auto simp: parse_warnings_def split: sum.splits)

lemma parse_warnings_member:
  "entry \<in> set entries \<Longrightarrow> Cookie_fromJSON w entry = Inl e \<Longrightarrow>
     Console WarnLevel ''Failed to parse cookie:'' (Some e) \<in> set (parse_warnings w entries)"
  by (induction entries) (auto simp: parse_warnings_def split: sum.splits)

lemma loadCookies_missing:
  assumes "\<not> existsSync w (cookiePath w)"
  shows "loadCookies w s =
     (Inr (),
      s\<lparr>trace := trace s @ [Invoke LoadCookies, ExistsSync (cookiePath w),
         Console LogLevel ''No existing cookies found'' None]\<rparr>)"
  using assms by (simp add: loadCookies_def prog_defs)

lemma loadCookies_unparsable:
  assumes "existsSync w (cookiePath w)" and "readFile w (cookiePath w) = Inr txt"
    and "parse_json w txt = Inl e"
  shows "loadCookies w s =
     (Inr (),
      s\<lparr>isLoggedIn := False,
        trace := trace s @ [Invoke LoadCookies, ExistsSync (cookiePath w),
          ReadFile (cookiePath w), Console ErrorLevel ''Cookie loading error:'' (Some e),
          SetIsLoggedIn False]\<rparr>)"
  using assms by (simp add: loadCookies_def prog_defs)

lemma loadCookies_array:
  assumes "existsSync w (cookiePath w)" and "readFile w (cookiePath w) = Inr txt"
    and "parse_json w txt = Inr (JArray entries)"
  shows "\<exists>evs. loadCookies w s =
           (Inr (),
            s\<lparr>isLoggedIn := isLoggedIn (snd (loadCookies w s)),
              trace := trace s @ [Invoke LoadCookies, ExistsSync (cookiePath w),
                ReadFile (cookiePath w)] @ parse_warnings w entries @ evs\<rparr>) \<and>
           loaded_cookies evs = valid_cookies w entries \<and>
           warnings_of evs = [] \<and>
           (valid_cookies w entries = [] \<longrightarrow> \<not> isLoggedIn (snd (loadCookies w s)))"
proof (cases "valid_cookies w entries = []")
  case True
  with assms have "loadCookies w s =
      (Inr (),
       s\<lparr>isLoggedIn := False,
         trace := trace s @ [Invoke LoadCookies, ExistsSync (cookiePath w),
           ReadFile (cookiePath w)] @ parse_warnings w entries @
           [Console LogLevel ''No valid cookies found'' None, SetIsLoggedIn False]\<rparr>)"
    by (simp add: loadCookies_def prog_defs mapM_parse_cookie parsed_valid_cookies parsed_valid_cookies_Nil Let_def
        array_map_target_def del: not_None_eq)
  with True show ?thesis
    by (intro exI [of _ "[Console LogLevel ''No valid cookies found'' None, SetIsLoggedIn False]"])
      (simp add: warnings_of_def)
next
  case False
  let ?cs = "valid_cookies w entries"
  let ?pre = "trace s @ [Invoke LoadCookies, ExistsSync (cookiePath w),
           ReadFile (cookiePath w)] @ parse_warnings w entries"
  show ?thesis
  proof (cases "scraper_setCookies w ?cs")
    case (Inl e)
    with assms False have "loadCookies w s =
      (Inr (),
       s\<lparr>isLoggedIn := False,
         trace := ?pre @ [ScraperSetCookies ?cs,
           Console ErrorLevel ''Cookie loading error:'' (Some e), SetIsLoggedIn False]\<rparr>)"
      by (simp add: loadCookies_def prog_defs mapM_parse_cookie parsed_valid_cookies parsed_valid_cookies_Nil Let_def
          array_map_target_def del: not_None_eq)
    with False show ?thesis
      by (intro exI [of _ "[ScraperSetCookies ?cs,
           Console ErrorLevel ''Cookie loading error:'' (Some e), SetIsLoggedIn False]"])
        (simp add: warnings_of_def)
  next
    case set_ok: (Inr u)
    show ?thesis
    proof (cases "scraper_isLoggedIn w ?cs")
      case (Inl e)
      with assms False set_ok have "loadCookies w s =
        (Inr (),
         s\<lparr>isLoggedIn := False,
           trace := ?pre @ [ScraperSetCookies ?cs, ScraperIsLoggedIn,
             Console ErrorLevel ''Cookie loading error:'' (Some e), SetIsLoggedIn False]\<rparr>)"
        by (simp add: loadCookies_def prog_defs mapM_parse_cookie parsed_valid_cookies parsed_valid_cookies_Nil Let_def
            array_map_target_def del: not_None_eq)
      with False show ?thesis
        by (intro exI [of _ "[ScraperSetCookies ?cs, ScraperIsLoggedIn,
             Console ErrorLevel ''Cookie loading error:'' (Some e), SetIsLoggedIn False]"])
        (simp add: warnings_of_def)
    next
      case (Inr b)
      with assms False set_ok have "loadCookies w s =
        (Inr (),
         s\<lparr>isLoggedIn := b,
           trace := ?pre @ [ScraperSetCookies ?cs, ScraperIsLoggedIn, SetIsLoggedIn b,
             Console LogLevel ''Cookies loaded successfully'' None]\<rparr>)"
        by (simp add: loadCookies_def prog_defs mapM_parse_cookie parsed_valid_cookies parsed_valid_cookies_Nil Let_def
            array_map_target_def del: not_None_eq)
      with False show ?thesis
        by (intro exI [of _ "[ScraperSetCookies ?cs, ScraperIsLoggedIn, SetIsLoggedIn b,
             Console LogLevel ''Cookies loaded successfully'' None]"])
          (simp add: warnings_of_def)
    qed
  qed
qed


lemma loadCookies_unreadable:
  assumes "existsSync w (cookiePath w)" and "readFile w (cookiePath w) = Inl e"
  shows "loadCookies w s =
     (Inr (),
      s\<lparr>isLoggedIn := False,
        trace := trace s @ [Invoke LoadCookies, ExistsSync (cookiePath w),
          ReadFile (cookiePath w), Console ErrorLevel ''Cookie loading error:'' (Some e),
          SetIsLoggedIn False]\<rparr>)"
  using assms by (simp add: loadCookies_def prog_defs)

lemma loadCookies_no_array:
  assumes "existsSync w (cookiePath w)" and "readFile w (cookiePath w) = Inr content"
    and "parse_json w content = Inr v" and "array_map_target v = Inl e"
  shows "loadCookies w s =
     (Inr (),
      s\<lparr>isLoggedIn := False,
        trace := trace s @ [Invoke LoadCookies, ExistsSync (cookiePath w),
          ReadFile (cookiePath w), Console ErrorLevel ''Cookie loading error:'' (Some e),
          SetIsLoggedIn False]\<rparr>)"
  using assms by (simp add: loadCookies_def prog_defs)

lemma warnings_of_parse_warnings:
  "warnings_of (parse_warnings w entries) = parse_warnings w entries"
  by (induction entries) (auto simp: warnings_of_def parse_warnings_def split: sum.splits)

lemma warnings_of_append: "warnings_of (xs @ ys) = warnings_of xs @ warnings_of ys"
  by (simp add: warnings_of_def)

text \<open>
  C6, as the specification states it: every malformed entry of the cookie file is
  dropped with a warning. The code warns in the catch of line 57 only, that is for an
  entry on which \<open>Cookie.fromJSON\<close> throws. Here the file holds one valid entry and
  \<open>null\<close>, for which the library returns \<open>null\<close>: the entry is dropped by the
  filter of line 61 and the run writes no warning at all.
\<close>

theorem loadCookies_null_entry_counterexample:
  "parse_json null_world null_text = Inr (JArray [stored_entry, JNull]) \<and>
   Cookie_fromJSON null_world JNull = Inr None \<and>
   loaded_cookies (events_since new_TwitterPost
     (snd (loadCookies null_world new_TwitterPost))) = [Cookie stored_entry] \<and>
   warnings_of (events_since new_TwitterPost
     (snd (loadCookies null_world new_TwitterPost))) = []"
  by code_simp

text \<open>
  C6, amended. \<open>loadCookies\<close> never throws. The cookies it loads are the ones it
  hands to the platform client (\<open>loaded_cookies\<close> of its events; the method itself
  returns no value). When the cookie file is missing it loads none, warns of nothing
  and does not touch the flag, which is false in a new object; when the file is empty,
  cannot be read, cannot be parsed or does not hold an array, it loads none and the
  flag is false; when the file holds an array, it loads exactly the entries that the
  cookie library turns into a cookie, in their order, and leaves the flag false if no
  entry is valid; its warnings are exactly one for every entry on which the library
  throws, in their order, so that an entry for which the library returns \<open>null\<close> is
  dropped without a warning.
\<close>

theorem loadCookies_loads_valid_entries:
  assumes "loadCookies w s = (r, s')"
  shows "r = Inr () \<and>
         (\<not> existsSync w (cookiePath w) \<longrightarrow>
            loaded_cookies (events_since s s') = [] \<and> isLoggedIn s' = isLoggedIn s \<and>
            warnings_of (events_since s s') = []) \<and>
         (existsSync w (cookiePath w) \<and> readFile w (cookiePath w) = Inr [] \<longrightarrow>
            loaded_cookies (events_since s s') = [] \<and> \<not> isLoggedIn s') \<and>
         (existsSync w (cookiePath w) \<and> readFile w (cookiePath w) = Inl e1 \<longrightarrow>
            loaded_cookies (events_since s s') = [] \<and> \<not> isLoggedIn s') \<and>
         (existsSync w (cookiePath w) \<and> readFile w (cookiePath w) = Inr content \<and>
          parse_json w content = Inl e2 \<longrightarrow>
            loaded_cookies (events_since s s') = [] \<and> \<not> isLoggedIn s') \<and>
         (existsSync w (cookiePath w) \<and> readFile w (cookiePath w) = Inr content \<and>
          parse_json w content = Inr v \<and> array_map_target v = Inl e3 \<longrightarrow>
            loaded_cookies (events_since s s') = [] \<and> \<not> isLoggedIn s') \<and>
         (existsSync w (cookiePath w) \<and> readFile w (cookiePath w) = Inr content \<and>
          parse_json w content = Inr (JArray entries) \<longrightarrow>
            loaded_cookies (events_since s s') = valid_cookies w entries \<and>
            (valid_cookies w entries = [] \<longrightarrow> \<not> isLoggedIn s') \<and>
            warnings_of (events_since s s') = parse_warnings w entries \<and>
            (\<forall>entry e. entry \<in> set entries \<and> Cookie_fromJSON w entry = Inl e \<longrightarrow>
               Console WarnLevel ''Failed to parse cookie:'' (Some e)
                 \<in> set (events_since s s')))"
proof (intro conjI impI)
  from loadCookies_step [OF assms] show "r = Inr ()" by simp
next
  assume "\<not> existsSync w (cookiePath w)"
  from loadCookies_missing [OF this, of s] assms
  show "loaded_cookies (events_since s s') = []" and "isLoggedIn s' = isLoggedIn s"
    and "warnings_of (events_since s s') = []"
    by (auto simp: events_since_def warnings_of_def)
next
  assume "existsSync w (cookiePath w) \<and> readFile w (cookiePath w) = Inr []"
  then have "existsSync w (cookiePath w)" and "readFile w (cookiePath w) = Inr []"
    and "parse_json w [] = Inl (Error ''SyntaxError: Unexpected end of JSON input'')"
    by (simp_all add: parse_json_def)
  from loadCookies_unparsable [OF this, of s] assms
  show "loaded_cookies (events_since s s') = []" and "\<not> isLoggedIn s'"
    by (auto simp: events_since_def)
next
  assume "existsSync w (cookiePath w) \<and> readFile w (cookiePath w) = Inl e1"
  then have "existsSync w (cookiePath w)" and "readFile w (cookiePath w) = Inl e1"
    by simp_all
  from loadCookies_unreadable [OF this, of s] assms
  show "loaded_cookies (events_since s s') = []" and "\<not> isLoggedIn s'"
    by (auto simp: events_since_def)
next
  assume "existsSync w (cookiePath w) \<and> readFile w (cookiePath w) = Inr content \<and>
    parse_json w content = Inl e2"
  then have "existsSync w (cookiePath w)" and "readFile w (cookiePath w) = Inr content"
    and "parse_json w content = Inl e2"
    by simp_all
  from loadCookies_unparsable [OF this, of s] assms
  show "loaded_cookies (events_since s s') = []" and "\<not> isLoggedIn s'"
    by (auto simp: events_since_def)
next
  assume "existsSync w (cookiePath w) \<and> readFile w (cookiePath w) = Inr content \<and>
    parse_json w content = Inr v \<and> array_map_target v = Inl e3"
  then have "existsSync w (cookiePath w)" and "readFile w (cookiePath w) = Inr content"
    and "parse_json w content = Inr v" and "array_map_target v = Inl e3"
    by simp_all
  from loadCookies_no_array [OF this, of s] assms
  show "loaded_cookies (events_since s s') = []" and "\<not> isLoggedIn s'"
    by (auto simp: events_since_def)
next
  assume a: "existsSync w (cookiePath w) \<and> readFile w (cookiePath w) = Inr content \<and>
    parse_json w content = Inr (JArray entries)"
  then have "existsSync w (cookiePath w)" and "readFile w (cookiePath w) = Inr content"
    and "parse_json w content = Inr (JArray entries)"
    by simp_all
  from loadCookies_array [OF this, of s] assms obtain evs where
    s': "s' = s\<lparr>isLoggedIn := isLoggedIn s',
              trace := trace s @ [Invoke LoadCookies, ExistsSync (cookiePath w),
                ReadFile (cookiePath w)] @ parse_warnings w entries @ evs\<rparr>"
    and loaded: "loaded_cookies evs = valid_cookies w entries"
    and quiet: "warnings_of evs = []"
    and none: "valid_cookies w entries = [] \<longrightarrow> \<not> isLoggedIn s'"
    by auto
  have ev: "events_since s s' = [Invoke LoadCookies, ExistsSync (cookiePath w),
      ReadFile (cookiePath w)] @ parse_warnings w entries @ evs"
    by (subst s') (simp add: events_since_def)
  show "loaded_cookies (events_since s s') = valid_cookies w entries"
    by (simp add: ev loaded loaded_cookies_parse_warnings)
  show "valid_cookies w entries = [] \<Longrightarrow> \<not> isLoggedIn s'"
    using none by simp
  have "warnings_of [Invoke LoadCookies, ExistsSync (cookiePath w), ReadFile (cookiePath w)] = []"
    by (simp add: warnings_of_def)
  then show "warnings_of (events_since s s') = parse_warnings w entries"
    unfolding ev by (simp only: warnings_of_append warnings_of_parse_warnings quiet) simp
  show "\<forall>entry e. entry \<in> set entries \<and> Cookie_fromJSON w entry = Inl e \<longrightarrow>
      Console WarnLevel ''Failed to parse cookie:'' (Some e) \<in> set (events_since s s')"
    by (auto simp: ev dest: parse_warnings_member)
qed

theorem loadCookies_loads_valid_entries_witness:
  "\<not> existsSync example_world (cookiePath example_world) \<and>
   fst (loadCookies example_world new_TwitterPost) = Inr () \<and>
   loaded_cookies (events_since new_TwitterPost
     (snd (loadCookies example_world new_TwitterPost))) = [] \<and>
   \<not> isLoggedIn (snd (loadCookies example_world new_TwitterPost)) \<and>
   parse_json stored_world stored_text = Inr (JArray [stored_entry, JNumber 7]) \<and>
   Cookie_fromJSON stored_world (JNumber 7) = Inl (Error ''TypeError: not a cookie'') \<and>
   loaded_cookies (events_since new_TwitterPost
     (snd (loadCookies stored_world new_TwitterPost))) = [Cookie stored_entry] \<and>
   warnings_of (events_since new_TwitterPost (snd (loadCookies stored_world new_TwitterPost))) =
     [Console WarnLevel ''Failed to parse cookie:'' (Some (Error ''TypeError: not a cookie''))] \<and>
   loaded_cookies (events_since new_TwitterPost
     (snd (loadCookies null_world new_TwitterPost))) = [Cookie stored_entry] \<and>
   warnings_of (events_since new_TwitterPost (snd (loadCookies null_world new_TwitterPost))) = []"
proof -
  have a: "\<not> existsSync example_world (cookiePath example_world)"
    by (simp add: example_world_def)
  have run1: "loadCookies example_world new_TwitterPost =
      (fst (loadCookies example_world new_TwitterPost),
       snd (loadCookies example_world new_TwitterPost))"
    by simp
  note first = loadCookies_loads_valid_entries [OF run1]
  from first have b: "fst (loadCookies example_world new_TwitterPost) = Inr ()"
    by blast
  from first a have c: "loaded_cookies (events_since new_TwitterPost
     (snd (loadCookies example_world new_TwitterPost))) = []"
    by blast
  from first a have "isLoggedIn (snd (loadCookies example_world new_TwitterPost)) =
      isLoggedIn new_TwitterPost"
    by blast
  then have d: "\<not> isLoggedIn (snd (loadCookies example_world new_TwitterPost))"
    by (simp add: new_TwitterPost_def)
  have e: "parse_json stored_world stored_text = Inr (JArray [stored_entry, JNumber 7])"
    by code_simp
  have f: "Cookie_fromJSON stored_world (JNumber 7) = Inl (Error ''TypeError: not a cookie'')"
    by code_simp
  have ex: "existsSync stored_world (cookiePath stored_world)"
    by code_simp
  have rd: "readFile stored_world (cookiePath stored_world) = Inr stored_text"
    by code_simp
  have valid: "valid_cookies stored_world [stored_entry, JNumber 7] = [Cookie stored_entry]"
    by code_simp
  have warn: "parse_warnings stored_world [stored_entry, JNumber 7] =
      [Console WarnLevel ''Failed to parse cookie:'' (Some (Error ''TypeError: not a cookie''))]"
    by code_simp
  have run2: "loadCookies stored_world new_TwitterPost =
      (fst (loadCookies stored_world new_TwitterPost),
       snd (loadCookies stored_world new_TwitterPost))"
    by simp
  note second = loadCookies_loads_valid_entries
    [OF run2, of _ stored_text _ _ _ "[stored_entry, JNumber 7]"]
  from second ex rd e have g: "loaded_cookies (events_since new_TwitterPost
     (snd (loadCookies stored_world new_TwitterPost))) = [Cookie stored_entry]"
    unfolding valid [symmetric] by blast
  from second ex rd e have h: "warnings_of (events_since new_TwitterPost
      (snd (loadCookies stored_world new_TwitterPost))) =
     [Console WarnLevel ''Failed to parse cookie:'' (Some (Error ''TypeError: not a cookie''))]"
    unfolding warn [symmetric] by blast
  have ex3: "existsSync null_world (cookiePath null_world)"
    by code_simp
  have rd3: "readFile null_world (cookiePath null_world) = Inr null_text"
    by code_simp
  have ps3: "parse_json null_world null_text = Inr (JArray [stored_entry, JNull])"
    by code_simp
  have valid3: "valid_cookies null_world [stored_entry, JNull] = [Cookie stored_entry]"
    by code_simp
  have warn3: "parse_warnings null_world [stored_entry, JNull] = []"
    by code_simp
  have run3: "loadCookies null_world new_TwitterPost =
      (fst (loadCookies null_world new_TwitterPost),
       snd (loadCookies null_world new_TwitterPost))"
    by simp
  note third = loadCookies_loads_valid_entries
    [OF run3, of _ null_text _ _ _ "[stored_entry, JNull]"]
  from third ex3 rd3 ps3 have i: "loaded_cookies (events_since new_TwitterPost
     (snd (loadCookies null_world new_TwitterPost))) = [Cookie stored_entry]"
    unfolding valid3 [symmetric] by blast
  from third ex3 rd3 ps3 have j: "warnings_of (events_since new_TwitterPost
      (snd (loadCookies null_world new_TwitterPost))) = []"
    unfolding warn3 [symmetric] by blast
  show ?thesis
    by (intro conjI;
        (fact a | fact b | fact c | fact d | fact e | fact f | fact g | fact h | fact i | fact j))
qed

subsection \<open>Saving cookies and the command line: C7 and C9\<close>

lemma saveCookies_cases:
  assumes "saveCookies w cookies s = (r, s')"
  shows "r = Inr () \<and> isLoggedIn s' = isLoggedIn s \<and>
         trace s' = trace s @ events_since s s' \<and>
         ((\<exists>e. events_since s s' =
                [Invoke SaveCookies, Console ErrorLevel ''Cookie saving error:'' (Some e)]) \<or>
          (\<exists>txt e. events_since s s' =
                [Invoke SaveCookies, WriteFile (cookiePath w) txt,
                 Console ErrorLevel ''Cookie saving error:'' (Some e)] \<and>
                writeFile w (cookiePath w) txt = Inl e) \<or>
          (\<exists>txt. events_since s s' =
                [Invoke SaveCookies, WriteFile (cookiePath w) txt,
                 Console LogLevel ''Cookies saved successfully'' None] \<and>
                writeFile w (cookiePath w) txt = Inr ()))"
proof -
  let ?s0 = "s\<lparr>trace := trace s @ [Invoke SaveCookies]\<rparr>"
  obtain r1 s1 where m: "mapM (\<lambda>cookie. pure_call (Cookie_toJSON w cookie)) cookies ?s0 = (r1, s1)"
    by (cases "mapM (\<lambda>cookie. pure_call (Cookie_toJSON w cookie)) cookies ?s0")
  from mapM_pure [OF m] have s1: "s1 = ?s0" .
  show ?thesis
  proof (cases r1)
    case (Inl e)
    with m s1 assms show ?thesis
      by (auto simp: saveCookies_def prog_defs events_since_def)
  next
    case (Inr cookiesJson)
    show ?thesis
    proof (cases "JSON_stringify w (JArray cookiesJson)")
      case (Inl e)
      with m s1 Inr assms show ?thesis
        by (auto simp: saveCookies_def prog_defs events_since_def)
    next
      case ser: (Inr serialized)
      show ?thesis
      proof (cases "writeFile w (cookiePath w) serialized")
        case (Inl e)
        with m s1 Inr ser assms show ?thesis
          by (auto simp: saveCookies_def prog_defs events_since_def)
      next
        case written: (Inr u)
        with m s1 Inr ser assms show ?thesis
          by (auto simp: saveCookies_def prog_defs events_since_def)
      qed
    qed
  qed
qed

lemma login_succeeds:
  assumes "scraper_login w (env_TWITTER_USERNAME w) (env_TWITTER_PASSWORD w)
      (env_TWITTER_EMAIL w) = Inr ()"
    and "scraper_getCookies w = Inr issued"
  shows "fst (login w s) = Inr () \<and> isLoggedIn (snd (login w s))"
proof -
  let ?s1 = "s\<lparr>isLoggedIn := True,
    trace := trace s @ [Invoke Login,
      ScraperLogin (env_TWITTER_USERNAME w) (env_TWITTER_PASSWORD w) (env_TWITTER_EMAIL w),
      SetIsLoggedIn True, ScraperGetCookies]\<rparr>"
  obtain r2 s2 where save: "saveCookies w issued ?s1 = (r2, s2)"
    by (cases "saveCookies w issued ?s1")
  from saveCookies_step [OF save] have "r2 = Inr ()" and "isLoggedIn s2"
    by simp_all
  with assms save show ?thesis
    by (simp add: login_def prog_defs)
qed

lemma initialize_succeeds:
  assumes "scraper_login w (env_TWITTER_USERNAME w) (env_TWITTER_PASSWORD w)
      (env_TWITTER_EMAIL w) = Inr ()"
    and "scraper_getCookies w = Inr issued"
  shows "fst (initialize w s) = Inr ()"
proof -
  let ?s0 = "s\<lparr>trace := trace s @ [Invoke Initialize]\<rparr>"
  obtain r1 s1 where load: "loadCookies w ?s0 = (r1, s1)"
    by (cases "loadCookies w ?s0")
  from loadCookies_step [OF load] have r1: "r1 = Inr ()" by simp
  show ?thesis
  proof (cases "isLoggedIn s1")
    case True
    with load r1 show ?thesis
      by (simp add: initialize_def prog_defs)
  next
    case False
    let ?s2 = "s1\<lparr>trace := trace s1 @ [Console LogLevel ''Logging in...'' None]\<rparr>"
    obtain r3 s3 where lg: "login w ?s2 = (r3, s3)"
      by (cases "login w ?s2")
    with login_succeeds [OF assms, of ?s2] have "r3 = Inr ()" by simp
    with load r1 False lg show ?thesis
      by (simp add: initialize_def prog_defs)
  qed
qed

lemma mapM_toJSON:
  "mapM (\<lambda>cookie. pure_call (Cookie_toJSON w cookie)) cookies s = (serialize_all w cookies, s)"
proof (induction cookies)
  case Nil
  show ?case by (simp add: ok_def)
next
  case (Cons c cs)
  show ?case
  proof (cases "Cookie_toJSON w c")
    case (Inl e)
    have step: "pure_call (Inl e) s = (Inl e, s)"
      by (simp add: pure_call_def)
    show ?thesis
      by (simp add: andThen_def step Inl)
  next
    case (Inr j)
    have step: "pure_call (Inr j) s = (Inr j, s)"
      by (simp add: pure_call_def)
    show ?thesis
      by (cases "serialize_all w cs") (simp_all add: andThen_def ok_def step Inr Cons.IH)
  qed
qed

lemma saveCookies_failure_logged:
  assumes "saveCookies w cookies s = (r, s')"
  shows "(\<forall>e. save_failure w cookies = Some e \<longrightarrow>
            last (trace s') = Console ErrorLevel ''Cookie saving error:'' (Some e) \<and>
            Console LogLevel ''Cookies saved successfully'' None \<notin> set (events_since s s')) \<and>
         (save_failure w cookies = None \<longrightarrow>
            last (trace s') = Console LogLevel ''Cookies saved successfully'' None)"
proof (cases "serialize_all w cookies")
  case (Inl e)
  then have sf: "save_failure w cookies = Some e"
    by (simp add: save_failure_def)
  from assms Inl have "s' = s\<lparr>trace := trace s @
      [Invoke SaveCookies, Console ErrorLevel ''Cookie saving error:'' (Some e)]\<rparr>"
    by (simp add: saveCookies_def prog_defs mapM_toJSON)
  then show ?thesis
    by (simp add: sf events_since_def)
next
  case (Inr js)
  show ?thesis
  proof (cases "JSON_stringify w (JArray js)")
    case (Inl e)
    with Inr have sf: "save_failure w cookies = Some e"
      by (simp add: save_failure_def)
    from assms Inr Inl have "s' = s\<lparr>trace := trace s @
        [Invoke SaveCookies, Console ErrorLevel ''Cookie saving error:'' (Some e)]\<rparr>"
      by (simp add: saveCookies_def prog_defs mapM_toJSON)
    then show ?thesis
      by (simp add: sf events_since_def)
  next
    case ser: (Inr serialized)
    show ?thesis
    proof (cases "writeFile w (cookiePath w) serialized")
      case (Inl e)
      with Inr ser have sf: "save_failure w cookies = Some e"
        by (simp add: save_failure_def)
      from assms Inr ser Inl have "s' = s\<lparr>trace := trace s @
          [Invoke SaveCookies, WriteFile (cookiePath w) serialized,
           Console ErrorLevel ''Cookie saving error:'' (Some e)]\<rparr>"
        by (simp add: saveCookies_def prog_defs mapM_toJSON)
      then show ?thesis
        by (simp add: sf events_since_def)
    next
      case written: (Inr u)
      with Inr ser have sf: "save_failure w cookies = None"
        by (simp add: save_failure_def)
      from assms Inr ser written have "s' = s\<lparr>trace := trace s @
          [Invoke SaveCookies, WriteFile (cookiePath w) serialized,
           Console LogLevel ''Cookies saved successfully'' None]\<rparr>"
        by (simp add: saveCookies_def prog_defs mapM_toJSON)
      then show ?thesis
        by (simp add: sf events_since_def)
    qed
  qed
qed

text \<open>
  C7. \<open>saveCookies\<close> never throws, whatever the list of cookies and whatever the
  world answers. Every failure of the save is logged: when a cookie's \<open>toJSON\<close>,
  \<open>JSON.stringify\<close> or the write of the file throws (\<open>save_failure\<close>), the last
  event of the call is the line \<open>Cookie saving error:\<close> with that error, and the call
  does not say that it saved the cookies; when nothing throws, its last event says
  that it saved them. So a login that the platform accepts succeeds and sets the flag,
  and \<open>initialize\<close> and the \<open>post\<close> that needed the login succeed, also when the
  cookies cannot be saved.
\<close>

theorem saveCookies_failure_not_propagated:
  "(\<exists>s'. saveCookies w cookies s = (Inr (), s') \<and> isLoggedIn s' = isLoggedIn s \<and>
      (\<forall>e. save_failure w cookies = Some e \<longrightarrow>
         last (trace s') = Console ErrorLevel ''Cookie saving error:'' (Some e) \<and>
         Console LogLevel ''Cookies saved successfully'' None \<notin> set (events_since s s')) \<and>
      (save_failure w cookies = None \<longrightarrow>
         last (trace s') = Console LogLevel ''Cookies saved successfully'' None) \<and>
      (last (trace s') = Console LogLevel ''Cookies saved successfully'' None \<or>
       (\<exists>e. last (trace s') = Console ErrorLevel ''Cookie saving error:'' (Some e))) \<and>
      (\<forall>content e. WriteFile (cookiePath w) content \<in> set (events_since s s') \<and>
                writeFile w (cookiePath w) content = Inl e \<longrightarrow>
         last (trace s') = Console ErrorLevel ''Cookie saving error:'' (Some e))) \<and>
   (scraper_login w (env_TWITTER_USERNAME w) (env_TWITTER_PASSWORD w)
      (env_TWITTER_EMAIL w) = Inr () \<and> scraper_getCookies w = Inr issued \<longrightarrow>
      fst (login w s) = Inr () \<and> isLoggedIn (snd (login w s)) \<and>
      fst (initialize w s) = Inr ()) \<and>
   (scraper_login w (env_TWITTER_USERNAME w) (env_TWITTER_PASSWORD w)
      (env_TWITTER_EMAIL w) = Inr () \<and> scraper_getCookies w = Inr issued \<and>
    scraper_sendTweet w tweet None None = Inr () \<longrightarrow>
      fst (post w tweet [] s) = Inr True)"
proof (intro conjI impI)
  obtain r s' where run: "saveCookies w cookies s = (r, s')"
    by (cases "saveCookies w cookies s")
  note facts = saveCookies_cases [OF run]
  from facts have r: "r = Inr ()" and flag: "isLoggedIn s' = isLoggedIn s"
    and tr: "trace s' = trace s @ events_since s s'"
    by simp_all
  have logged: "last (trace s') = Console LogLevel ''Cookies saved successfully'' None \<or>
       (\<exists>e. last (trace s') = Console ErrorLevel ''Cookie saving error:'' (Some e))"
  proof -
    from facts consider
      (early) e where "events_since s s' =
        [Invoke SaveCookies, Console ErrorLevel ''Cookie saving error:'' (Some e)]"
    | (failed) content e where "events_since s s' =
        [Invoke SaveCookies, WriteFile (cookiePath w) content,
         Console ErrorLevel ''Cookie saving error:'' (Some e)]"
    | (saved) content where "events_since s s' =
        [Invoke SaveCookies, WriteFile (cookiePath w) content,
         Console LogLevel ''Cookies saved successfully'' None]"
      by blast
    then show ?thesis
    proof cases
      case early
      with tr have "last (trace s') = Console ErrorLevel ''Cookie saving error:'' (Some e)"
        by simp
      then show ?thesis by blast
    next
      case failed
      with tr have "last (trace s') = Console ErrorLevel ''Cookie saving error:'' (Some e)"
        by simp
      then show ?thesis by blast
    next
      case saved
      with tr have "last (trace s') = Console LogLevel ''Cookies saved successfully'' None"
        by simp
      then show ?thesis by blast
    qed
  qed
  have "last (trace s') = Console ErrorLevel ''Cookie saving error:'' (Some e)"
    if "WriteFile (cookiePath w) content \<in> set (events_since s s')"
      and "writeFile w (cookiePath w) content = Inl e" for content e
  proof -
    from facts that have "events_since s s' =
        [Invoke SaveCookies, WriteFile (cookiePath w) content,
         Console ErrorLevel ''Cookie saving error:'' (Some e)]"
      by auto
    with tr show ?thesis by simp
  qed
  then have wf: "\<forall>content e. WriteFile (cookiePath w) content \<in> set (events_since s s') \<and>
                writeFile w (cookiePath w) content = Inl e \<longrightarrow>
         last (trace s') = Console ErrorLevel ''Cookie saving error:'' (Some e)"
    by blast
  note fl = saveCookies_failure_logged [OF run]
  from fl [THEN conjunct1]
  have fl1: "\<forall>e. save_failure w cookies = Some e \<longrightarrow>
         last (trace s') = Console ErrorLevel ''Cookie saving error:'' (Some e) \<and>
         Console LogLevel ''Cookies saved successfully'' None \<notin> set (events_since s s')"
    .
  from fl [THEN conjunct2]
  have fl2: "save_failure w cookies = None \<longrightarrow>
         last (trace s') = Console LogLevel ''Cookies saved successfully'' None"
    .
  from run r have run': "saveCookies w cookies s = (Inr (), s')"
    by simp
  show "\<exists>s'. saveCookies w cookies s = (Inr (), s') \<and> isLoggedIn s' = isLoggedIn s \<and>
      (\<forall>e. save_failure w cookies = Some e \<longrightarrow>
         last (trace s') = Console ErrorLevel ''Cookie saving error:'' (Some e) \<and>
         Console LogLevel ''Cookies saved successfully'' None \<notin> set (events_since s s')) \<and>
      (save_failure w cookies = None \<longrightarrow>
         last (trace s') = Console LogLevel ''Cookies saved successfully'' None) \<and>
      (last (trace s') = Console LogLevel ''Cookies saved successfully'' None \<or>
       (\<exists>e. last (trace s') = Console ErrorLevel ''Cookie saving error:'' (Some e))) \<and>
      (\<forall>content e. WriteFile (cookiePath w) content \<in> set (events_since s s') \<and>
                writeFile w (cookiePath w) content = Inl e \<longrightarrow>
         last (trace s') = Console ErrorLevel ''Cookie saving error:'' (Some e))"
    by (intro exI [of _ s'] conjI;
        (fact run' | fact flag | fact fl1 | fact fl2 | fact logged | fact wf))
next
  assume a: "scraper_login w (env_TWITTER_USERNAME w) (env_TWITTER_PASSWORD w)
      (env_TWITTER_EMAIL w) = Inr () \<and> scraper_getCookies w = Inr issued"
  then show "fst (login w s) = Inr ()" and "isLoggedIn (snd (login w s))"
    using login_succeeds [of w issued s] by simp_all
  from a show "fst (initialize w s) = Inr ()"
    using initialize_succeeds [of w issued s] by simp
next
  assume a: "scraper_login w (env_TWITTER_USERNAME w) (env_TWITTER_PASSWORD w)
      (env_TWITTER_EMAIL w) = Inr () \<and> scraper_getCookies w = Inr issued \<and>
    scraper_sendTweet w tweet None None = Inr ()"
  let ?s0 = "s\<lparr>trace := trace s @ [Invoke Post]\<rparr>"
  have "fst (ensure_session w ?s0) = Inr ()"
  proof (cases "isLoggedIn s")
    case True
    then show ?thesis by (simp add: ensure_session_def prog_defs)
  next
    case False
    with a initialize_succeeds [of w issued ?s0] show ?thesis
      by (simp add: ensure_session_def prog_defs)
  qed
  then have session: "ensure_session w ?s0 = (Inr (), snd (ensure_session w ?s0))"
    by (metis prod.collapse)
  from a show "fst (post w tweet [] s) = Inr True"
    by (simp add: post_after_session [OF session] prog_defs)
qed

theorem saveCookies_failure_not_propagated_witness:
  "save_failure example_world [Cookie (JString ''auth_token'')] =
     Some (Error ''EACCES: permission denied'') \<and>
   WriteFile ''cookies.json'' ''[]'' \<in>
     set (trace (snd (post example_world ''hello'' [] new_TwitterPost))) \<and>
   Console ErrorLevel ''Cookie saving error:'' (Some (Error ''EACCES: permission denied'')) \<in>
     set (trace (snd (post example_world ''hello'' [] new_TwitterPost))) \<and>
   fst (login example_world new_TwitterPost) = Inr () \<and>
   fst (post example_world ''hello'' [] new_TwitterPost) = Inr True \<and>
   save_failure unserializable_world [Cookie (JString ''auth_token'')] =
     Some (Error ''TypeError: cookie.toJSON is not a function'') \<and>
   fst (saveCookies unserializable_world [Cookie (JString ''auth_token'')] new_TwitterPost) =
     Inr () \<and>
   last (trace (snd (saveCookies unserializable_world [Cookie (JString ''auth_token'')]
       new_TwitterPost))) =
     Console ErrorLevel ''Cookie saving error:''
       (Some (Error ''TypeError: cookie.toJSON is not a function''))"
proof -
  have a: "save_failure example_world [Cookie (JString ''auth_token'')] =
     Some (Error ''EACCES: permission denied'')"
    by code_simp
  have b: "WriteFile ''cookies.json'' ''[]'' \<in>
     set (trace (snd (post example_world ''hello'' [] new_TwitterPost)))"
    by code_simp
  have c: "Console ErrorLevel ''Cookie saving error:''
      (Some (Error ''EACCES: permission denied'')) \<in>
     set (trace (snd (post example_world ''hello'' [] new_TwitterPost)))"
    by code_simp
  have lg: "scraper_login example_world (env_TWITTER_USERNAME example_world)
      (env_TWITTER_PASSWORD example_world) (env_TWITTER_EMAIL example_world) = Inr ()"
    by (simp add: example_world_def)
  have gc: "scraper_getCookies example_world = Inr [Cookie (JString ''auth_token'')]"
    by (simp add: example_world_def)
  have sd: "scraper_sendTweet example_world ''hello'' None None = Inr ()"
    by (simp add: example_world_def)
  note inst = saveCookies_failure_not_propagated
    [of example_world _ new_TwitterPost "[Cookie (JString ''auth_token'')]" "''hello''"]
  from inst lg gc have d: "fst (login example_world new_TwitterPost) = Inr ()"
    by blast
  from inst lg gc sd have e: "fst (post example_world ''hello'' [] new_TwitterPost) = Inr True"
    by blast
  have f: "save_failure unserializable_world [Cookie (JString ''auth_token'')] =
     Some (Error ''TypeError: cookie.toJSON is not a function'')"
    by code_simp
  from saveCookies_failure_not_propagated
    [of unserializable_world "[Cookie (JString ''auth_token'')]" new_TwitterPost,
     THEN conjunct1]
  obtain s' where run: "saveCookies unserializable_world [Cookie (JString ''auth_token'')]
      new_TwitterPost = (Inr (), s')"
    and logged: "\<forall>e. save_failure unserializable_world [Cookie (JString ''auth_token'')] = Some e \<longrightarrow>
         last (trace s') = Console ErrorLevel ''Cookie saving error:'' (Some e)"
    by blast
  from run have g: "fst (saveCookies unserializable_world [Cookie (JString ''auth_token'')]
      new_TwitterPost) = Inr ()"
    by simp
  from logged f run have h: "last (trace (snd (saveCookies unserializable_world
      [Cookie (JString ''auth_token'')] new_TwitterPost))) =
     Console ErrorLevel ''Cookie saving error:''
       (Some (Error ''TypeError: cookie.toJSON is not a function''))"
    by simp
  show ?thesis
    by (intro conjI;
        (fact a | fact b | fact c | fact d | fact e | fact f | fact g | fact h))
qed

text \<open>
  C9. The command line exits with code 1, after one line on the console and with no
  call to the file system or the platform client, when there is no command, when the
  command is neither \<open>tweet\<close> nor \<open>reply\<close>, and when the command is \<open>tweet\<close> with no
  text; with a command and its arguments it exits with 0 when \<open>post\<close> or
  \<open>replyToTweet\<close> returns and with 1 when it throws.
\<close>

theorem main_exit_codes:
  "(drop 2 argv = [] \<or> hd (drop 2 argv) = [] \<longrightarrow>
      main w argv =
        (1, new_TwitterPost\<lparr>trace := [Console LogLevel usage None, ProcessExit 1]\<rparr>)) \<and>
   (command \<noteq> [] \<and> toLowerCase command \<noteq> ''tweet'' \<and> toLowerCase command \<noteq> ''reply'' \<longrightarrow>
      main w (node # script # command # args) =
        (1, new_TwitterPost\<lparr>trace := [Console LogLevel unknown_command None, ProcessExit 1]\<rparr>)) \<and>
   (toLowerCase command = ''tweet'' \<and> (args = [] \<or> hd args = []) \<longrightarrow>
      main w (node # script # command # args) =
        (1, new_TwitterPost\<lparr>trace :=
              [Console LogLevel ''Tweet text is required'' None, ProcessExit 1]\<rparr>)) \<and>
   (toLowerCase command = ''tweet'' \<and> tweet \<noteq> [] \<longrightarrow>
      fst (main w (node # script # command # tweet # mediaFiles)) =
        (case fst (post w tweet mediaFiles new_TwitterPost) of Inr _ \<Rightarrow> 0 | Inl _ \<Rightarrow> 1) \<and>
      last (trace (snd (main w (node # script # command # tweet # mediaFiles)))) =
        ProcessExit (fst (main w (node # script # command # tweet # mediaFiles)))) \<and>
   (toLowerCase command = ''reply'' \<and> tweetId \<noteq> [] \<and> tweet \<noteq> [] \<longrightarrow>
      fst (main w (node # script # command # tweetId # tweet # mediaFiles)) =
        (case fst (replyToTweet w tweetId tweet mediaFiles new_TwitterPost) of
           Inr _ \<Rightarrow> 0 | Inl _ \<Rightarrow> 1) \<and>
      last (trace (snd (main w (node # script # command # tweetId # tweet # mediaFiles)))) =
        ProcessExit (fst (main w (node # script # command # tweetId # tweet # mediaFiles))))"
proof (intro conjI impI)
  assume "drop 2 argv = [] \<or> hd (drop 2 argv) = []"
  then show "main w argv =
      (1, new_TwitterPost\<lparr>trace := [Console LogLevel usage None, ProcessExit 1]\<rparr>)"
    by (cases "drop 2 argv")
      (auto simp: main_def log_then_exit_def process_exit_def console_def emit_def
        new_TwitterPost_def)
next
  assume "command \<noteq> [] \<and> toLowerCase command \<noteq> ''tweet'' \<and> toLowerCase command \<noteq> ''reply''"
  then show "main w (node # script # command # args) =
      (1, new_TwitterPost\<lparr>trace := [Console LogLevel unknown_command None, ProcessExit 1]\<rparr>)"
    by (simp add: main_def log_then_exit_def process_exit_def console_def emit_def
        new_TwitterPost_def)
next
  assume a: "toLowerCase command = ''tweet'' \<and> (args = [] \<or> hd args = [])"
  then have "command \<noteq> []"
    by (auto simp: toLowerCase_def)
  with a show "main w (node # script # command # args) =
      (1, new_TwitterPost\<lparr>trace :=
            [Console LogLevel ''Tweet text is required'' None, ProcessExit 1]\<rparr>)"
    by (cases args)
      (auto simp: main_def log_then_exit_def process_exit_def console_def emit_def
        new_TwitterPost_def)
next
  assume a: "toLowerCase command = ''tweet'' \<and> tweet \<noteq> []"
  then have c: "command \<noteq> []"
    by (auto simp: toLowerCase_def)
  obtain r s' where run: "post w tweet mediaFiles new_TwitterPost = (r, s')"
    by (cases "post w tweet mediaFiles new_TwitterPost")
  with a c have m: "main w (node # script # command # tweet # mediaFiles) = settle (r, s')"
    by (simp add: main_def)
  show "fst (main w (node # script # command # tweet # mediaFiles)) =
      (case fst (post w tweet mediaFiles new_TwitterPost) of Inr _ \<Rightarrow> 0 | Inl _ \<Rightarrow> 1)"
    by (cases r) (simp_all add: m run settle_def process_exit_def)
  show "last (trace (snd (main w (node # script # command # tweet # mediaFiles)))) =
      ProcessExit (fst (main w (node # script # command # tweet # mediaFiles)))"
    by (cases r) (simp_all add: m settle_def process_exit_def)
next
  assume a: "toLowerCase command = ''reply'' \<and> tweetId \<noteq> [] \<and> tweet \<noteq> []"
  then have c: "command \<noteq> []" and d: "toLowerCase command \<noteq> ''tweet''"
    by (auto simp: toLowerCase_def)
  obtain r s' where run: "replyToTweet w tweetId tweet mediaFiles new_TwitterPost = (r, s')"
    by (cases "replyToTweet w tweetId tweet mediaFiles new_TwitterPost")
  with a c d have m: "main w (node # script # command # tweetId # tweet # mediaFiles) =
      settle (r, s')"
    by (simp add: main_def)
  show "fst (main w (node # script # command # tweetId # tweet # mediaFiles)) =
      (case fst (replyToTweet w tweetId tweet mediaFiles new_TwitterPost) of
         Inr _ \<Rightarrow> 0 | Inl _ \<Rightarrow> 1)"
    by (cases r) (simp_all add: m run settle_def process_exit_def)
  show "last (trace (snd (main w (node # script # command # tweetId # tweet # mediaFiles)))) =
      ProcessExit (fst (main w (node # script # command # tweetId # tweet # mediaFiles)))"
    by (cases r) (simp_all add: m settle_def process_exit_def)
qed


theorem main_exit_codes_witness:
  "main example_world [''node'', ''autoPost.js''] =
     (1, new_TwitterPost\<lparr>trace := [Console LogLevel usage None, ProcessExit 1]\<rparr>) \<and>
   main example_world [''node'', ''autoPost.js'', ''delete'', ''42''] =
     (1, new_TwitterPost\<lparr>trace := [Console LogLevel unknown_command None, ProcessExit 1]\<rparr>) \<and>
   main example_world [''node'', ''autoPost.js'', ''tweet''] =
     (1, new_TwitterPost\<lparr>trace :=
           [Console LogLevel ''Tweet text is required'' None, ProcessExit 1]\<rparr>) \<and>
   fst (main example_world [''node'', ''autoPost.js'', ''TWEET'', ''hello'', ''exists.png'']) = 0 \<and>
   fst (main (example_world\<lparr>scraper_sendTweet := (\<lambda>t r m. Inl (Error ''fetch failed''))\<rparr>)
          [''node'', ''autoPost.js'', ''reply'', ''42'', ''hello'']) = 1"
proof -
  let ?offline = "example_world\<lparr>scraper_sendTweet := (\<lambda>t r m. Inl (Error ''fetch failed''))\<rparr>"
  have a: "main example_world [''node'', ''autoPost.js''] =
     (1, new_TwitterPost\<lparr>trace := [Console LogLevel usage None, ProcessExit 1]\<rparr>)"
    using main_exit_codes [of "[''node'', ''autoPost.js'']" example_world] by simp
  have "''delete'' \<noteq> [] \<and> toLowerCase ''delete'' \<noteq> ''tweet'' \<and> toLowerCase ''delete'' \<noteq> ''reply''"
    by code_simp
  with main_exit_codes [of _ example_world "''delete''" "''node''" "''autoPost.js''" "[''42'']"]
  have b: "main example_world [''node'', ''autoPost.js'', ''delete'', ''42''] =
     (1, new_TwitterPost\<lparr>trace := [Console LogLevel unknown_command None, ProcessExit 1]\<rparr>)"
    by blast
  have "toLowerCase ''tweet'' = ''tweet''"
    by code_simp
  with main_exit_codes [of _ example_world "''tweet''" "''node''" "''autoPost.js''" "[]"]
  have c: "main example_world [''node'', ''autoPost.js'', ''tweet''] =
     (1, new_TwitterPost\<lparr>trace :=
           [Console LogLevel ''Tweet text is required'' None, ProcessExit 1]\<rparr>)"
    by blast
  have up: "toLowerCase ''TWEET'' = ''tweet'' \<and> ''hello'' \<noteq> []"
    by code_simp
  have posted: "fst (post example_world ''hello'' [''exists.png''] new_TwitterPost) = Inr True"
    by code_simp
  from main_exit_codes [of _ example_world "''TWEET''" "''node''" "''autoPost.js''" _
      "''hello''" "[''exists.png'']"] up
  have "fst (main example_world [''node'', ''autoPost.js'', ''TWEET'', ''hello'', ''exists.png'']) =
      (case fst (post example_world ''hello'' [''exists.png''] new_TwitterPost) of
         Inr _ \<Rightarrow> 0 | Inl _ \<Rightarrow> 1)"
    by blast
  then have d: "fst (main example_world
      [''node'', ''autoPost.js'', ''TWEET'', ''hello'', ''exists.png'']) = 0"
    by (simp add: posted)
  have rp: "toLowerCase ''reply'' = ''reply'' \<and> ''42'' \<noteq> [] \<and> ''hello'' \<noteq> []"
    by code_simp
  have failed: "fst (replyToTweet ?offline ''42'' ''hello'' [] new_TwitterPost) =
      Inl (Error ''fetch failed'')"
    by code_simp
  from main_exit_codes [of _ ?offline "''reply''" "''node''" "''autoPost.js''" _
      "''hello''" "[]" "''42''"] rp
  have "fst (main ?offline [''node'', ''autoPost.js'', ''reply'', ''42'', ''hello'']) =
      (case fst (replyToTweet ?offline ''42'' ''hello'' [] new_TwitterPost) of
         Inr _ \<Rightarrow> 0 | Inl _ \<Rightarrow> 1)"
    by blast
  then have e: "fst (main ?offline [''node'', ''autoPost.js'', ''reply'', ''42'', ''hello'']) = 1"
    by (simp add: failed)
  show ?thesis
    by (intro conjI; (fact a | fact b | fact c | fact d | fact e))
qed

end
